theory Spec2Isabelle
  imports Complex_Main "HOL-Library.Sublist"
begin

section \<open>Python values shared by the three modules\<close>

text \<open>
  Exceptions of the Python code are values: every function that can raise returns
  \<open>error + 'a\<close>, with \<open>Inl\<close> carrying the exception class. \<open>FileError\<close> carries the
  exception that opening or reading a file raised.
\<close>

datatype io_error =
    FileNotFoundError
  | IsADirectoryError
  | PermissionError
  | UnicodeDecodeError
  | OtherOSError

datatype error =
    AssertionError
  | FileError io_error
  | TypeError
  | AttributeError
  | ValueError
  | KeyError
  | ZeroDivisionError
  | OverflowError

definition bind_res :: "error + 'a \<Rightarrow> ('a \<Rightarrow> error + 'b) \<Rightarrow> error + 'b" where
  "bind_res m f = (case m of Inl e \<Rightarrow> Inl e | Inr x \<Rightarrow> f x)"

section \<open>utils/db\_query\_utils.py\<close>

subsection \<open>String helpers\<close>

text \<open>\<^verbatim>\<open>sub in s\<close> on Python strings: \<open>sub\<close> occurs as a contiguous substring.\<close>

fun contains_str :: "string \<Rightarrow> string \<Rightarrow> bool" where
  "contains_str sub [] = (sub = [])"
| "contains_str sub (c # cs) = (prefix sub (c # cs) \<or> contains_str sub cs)"

text \<open>\<^verbatim>\<open>s.split("\n")\<close>: the pieces between line feeds; the empty string gives one empty piece.\<close>

fun split_nl :: "string \<Rightarrow> string list" where
  "split_nl [] = [[]]"
| "split_nl (c # cs) =
     (if c = CHR 0x0A then [] # split_nl cs
      else (case split_nl cs of [] \<Rightarrow> [[c]] | l # ls \<Rightarrow> (c # l) # ls))"

text \<open>
  \<^verbatim>\<open>xs[a:b]\<close> for indices \<open>a, b \<ge> 0\<close> (\<open>b\<close> may be \<^verbatim>\<open>None\<close>): the elements at
  positions \<open>a \<le> i < b\<close>, empty when \<open>b \<le> a\<close> or \<open>a\<close> is past the end.
\<close>

definition py_slice :: "'a list \<Rightarrow> nat \<Rightarrow> nat option \<Rightarrow> 'a list" where
  "py_slice xs a b = (case b of None \<Rightarrow> drop a xs | Some b' \<Rightarrow> take (b' - a) (drop a xs))"

text \<open>\<^verbatim>\<open>[i for i, e in enumerate(q) if P(e)]\<close>\<close>

definition indices_where :: "('a \<Rightarrow> bool) \<Rightarrow> 'a list \<Rightarrow> nat list" where
  "indices_where P q = map fst (filter (\<lambda>(i, e). P e) (enumerate 0 q))"

subsection \<open>Splitting a script into groups and steps\<close>

definition is_step_marker :: "string \<Rightarrow> bool" where
  "is_step_marker e = (contains_str ''BASE_QUERY'' e \<or> contains_str ''QUERY_STEP'' e)"

definition is_sub_query_marker :: "string \<Rightarrow> bool" where
  "is_sub_query_marker e = contains_str ''SUB_QUERY'' e"

text \<open>\<^verbatim>\<open>DBQuery.__process_steps\<close>\<close>

definition process_steps :: "string list \<Rightarrow> string list" where
  "process_steps q =
     (let steps = indices_where is_step_marker q;
          pairs = (if length steps > 0
                   then (let base = hd steps
                         in map (\<lambda>s. (base, s)) (map Some (tl steps) @ [None]))
                   else [(0, None)]);
          slices = map (\<lambda>(a, b). py_slice q a b) pairs
      in map concat slices)"

text \<open>\<^verbatim>\<open>DBQuery.__process_subqueries\<close>\<close>

definition process_subqueries :: "string list \<Rightarrow> string list list" where
  "process_subqueries qry =
     (let sub_queries = indices_where is_sub_query_marker qry;
          pairs = zip sub_queries (map Some (tl sub_queries) @ [None]);
          groups = map (\<lambda>(a, b). py_slice qry a b) pairs
      in map process_steps groups)"

text \<open>
  The position the claims call "the first marker": the index of the first line holding a
  step marker, or the start of the group when no line holds one. It is stated on the
  lines themselves, independently of how \<open>process_steps\<close> computes its indices.
\<close>

definition first_marker_pos :: "string list \<Rightarrow> nat" where
  "first_marker_pos q =
     (if list_ex is_step_marker q then length (takeWhile (\<lambda>e. \<not> is_step_marker e) q) else 0)"

subsection \<open>The world outside the class\<close>

text \<open>
  The file system, the path arithmetic of \<^verbatim>\<open>pathlib\<close>, the Oracle cursor and pandas are
  libraries, not code of this repository: they are parameters. A path is the string
  \<^verbatim>\<open>pathlib\<close> would print; \<open>path_join a b\<close> is \<^verbatim>\<open>Path(a) / b\<close>; \<open>read_lines p\<close> is
  \<^verbatim>\<open>open(p, "r").readlines()\<close>, or the exception that opening or reading the file raises.
\<close>

record env =
  cwd :: string
  path_join :: "string \<Rightarrow> string \<Rightarrow> string"
  read_lines :: "string \<Rightarrow> io_error + string list"

text \<open>
  The cursor has a state of type \<open>'c\<close>; a fetched row has type \<open>'r\<close>; a dataframe has type
  \<open>'df\<close>; a transformation function has type \<open>'f\<close>. \<open>make_df\<close> is
  \<^verbatim>\<open>pd.DataFrame(data, columns=cols)\<close> and \<open>apply_col\<close> is
  \<^verbatim>\<open>result[col] = result[col].apply(func)\<close>; both can raise.
\<close>

record ('c, 'r, 'df, 'f) driver =
  execute :: "'c \<Rightarrow> string \<Rightarrow> error + 'c"
  description :: "'c \<Rightarrow> string list"
  fetchall :: "'c \<Rightarrow> 'r list \<times> 'c"
  fetchmany :: "'c \<Rightarrow> int \<Rightarrow> 'r list \<times> 'c"
  make_df :: "'r list \<Rightarrow> string list \<Rightarrow> error + 'df"
  apply_col :: "'df \<Rightarrow> string \<Rightarrow> 'f \<Rightarrow> error + 'df"

text \<open>
  What a run can change outside the object: the cursor, the lines printed, and the
  dictionary that is the default value of \<^verbatim>\<open>initialCache\<close> in \<^verbatim>\<open>DBQueryCache.__init__\<close>.
  Python evaluates that default once, so every \<^verbatim>\<open>DBQueryCache()\<close> made without an argument
  holds this one dictionary.
\<close>

record ('c, 'df) world =
  cursor_state :: 'c
  printed :: "string list"
  default_dict :: "string \<rightharpoonup> 'df"

subsection \<open>The DBQuery object\<close>

text \<open>
  The dictionary of the \<^verbatim>\<open>DBQueryCache\<close> an object holds: the shared default dictionary,
  or a dictionary handed in by the caller, which is held by value (what the caller sees of
  it afterwards is not tracked).
\<close>

datatype 'df cache_ref = DefaultDict | OwnDict "string \<rightharpoonup> 'df"

text \<open>The fields of a \<^verbatim>\<open>DBQuery\<close> instance.\<close>

record ('df, 'f) db_query =
  root_folder :: "string option"
  by_file :: bool
  file_path :: "string option"
  raw_qry :: "string option"
  by_steps :: bool
  qry :: "string list list option"
  limit :: "int option"
  transform :: "(string \<times> 'f) list option"
  cache :: "'df cache_ref option"

text \<open>The \<^verbatim>\<open>old_cache\<close> argument of the constructor, by its run-time type.\<close>

datatype 'df old_cache_arg =
    OldCacheNone
  | OldCacheObject "string \<rightharpoonup> 'df"
  | OldCacheDict "string \<rightharpoonup> 'df"
  | OldCacheOther

text \<open>The first half of \<^verbatim>\<open>DBQuery.__populate_query\<close>: the lines of the script.\<close>

definition load_lines :: "env \<Rightarrow> ('df, 'f) db_query \<Rightarrow> error + string list" where
  "load_lines e s =
     (if by_file s
      then (case file_path s of
              None \<Rightarrow> Inl TypeError
            | Some p \<Rightarrow> (case read_lines e p of
                          Inl err \<Rightarrow> Inl (FileError err)
                        | Inr ls \<Rightarrow> Inr ls))
      else (case raw_qry s of
              None \<Rightarrow> Inl AttributeError
            | Some q \<Rightarrow> Inr (split_nl q)))"

text \<open>\<^verbatim>\<open>DBQuery.__populate_query\<close>\<close>

definition populate_query :: "env \<Rightarrow> ('df, 'f) db_query \<Rightarrow> error + ('df, 'f) db_query" where
  "populate_query e s =
     bind_res (load_lines e s) (\<lambda>ls.
       if by_steps s
       then Inr (s\<lparr>qry := Some (process_subqueries ls)\<rparr>)
       else Inr (s\<lparr>qry := Some [[concat ls]]\<rparr>))"

text \<open>\<^verbatim>\<open>DBQuery.__init__\<close>; the cursor is kept in the world, not in the object.\<close>

definition init_db_query ::
  "env \<Rightarrow> string option \<Rightarrow> string option \<Rightarrow> string option \<Rightarrow> string option \<Rightarrow> bool \<Rightarrow>
   int option \<Rightarrow> bool \<Rightarrow> 'df old_cache_arg \<Rightarrow> (string \<times> 'f) list option \<Rightarrow>
   error + ('df, 'f) db_query" where
  "init_db_query e file_name query base_folder root_folder' by_steps' limit' use_cache old_cache
     transform' =
     (if file_name = None \<and> query = None then Inl AssertionError
      else
        let is_file = (file_name \<noteq> None);
            path1 = (if is_file
                     then (if base_folder = None
                           then Some (path_join e (cwd e) (the file_name))
                           else Some (path_join e (path_join e (cwd e) (the base_folder))
                                        (the file_name)))
                     else None);
            raw = (if is_file then None else query)
        in bind_res
             (if root_folder' \<noteq> None
              then (if base_folder = None \<or> file_name = None then Inl TypeError
                    else Inr (Some (path_join e (path_join e (the root_folder') (the base_folder))
                                      (the file_name))))
              else Inr path1)
             (\<lambda>path2.
                bind_res
                  (populate_query e
                     \<lparr>root_folder = root_folder', by_file = is_file, file_path = path2,
                      raw_qry = raw, by_steps = by_steps', qry = None, limit = None,
                      transform = None, cache = None\<rparr>)
                  (\<lambda>s. Inr (s\<lparr>limit := limit', transform := transform',
                              cache :=
                                (case old_cache of
                                   OldCacheObject c \<Rightarrow>
                                     if use_cache then Some (OwnDict c) else None
                                 | OldCacheDict d \<Rightarrow>
                                     if use_cache then Some (OwnDict d) else None
                                 | OldCacheNone \<Rightarrow>
                                     if use_cache then Some DefaultDict else None
                                 | OldCacheOther \<Rightarrow> None)\<rparr>))))"

text \<open>\<^verbatim>\<open>DBQuery.__apply_transform\<close>\<close>

fun apply_transform_list ::
  "('c, 'r, 'df, 'f) driver \<Rightarrow> (string \<times> 'f) list \<Rightarrow> 'df \<Rightarrow> error + 'df" where
  "apply_transform_list d [] result = Inr result"
| "apply_transform_list d ((col_name, func) # ts) result =
     bind_res (apply_col d result col_name func) (apply_transform_list d ts)"

text \<open>\<^verbatim>\<open>DBQueryCache.get\<close> and \<^verbatim>\<open>DBQueryCache.put\<close> on the cache of an object.\<close>

definition cache_get ::
  "('df, 'f) db_query \<Rightarrow> ('c, 'df) world \<Rightarrow> string \<Rightarrow> 'df option" where
  "cache_get s w query =
     (case cache s of
        None \<Rightarrow> None
      | Some DefaultDict \<Rightarrow> default_dict w query
      | Some (OwnDict c) \<Rightarrow> c query)"

definition cache_put ::
  "('df, 'f) db_query \<Rightarrow> ('c, 'df) world \<Rightarrow> string \<Rightarrow> 'df \<Rightarrow>
   ('df, 'f) db_query \<times> ('c, 'df) world" where
  "cache_put s w query result =
     (case cache s of
        None \<Rightarrow> (s, w)
      | Some DefaultDict \<Rightarrow> (s, w\<lparr>default_dict := (default_dict w)(query \<mapsto> result)\<rparr>)
      | Some (OwnDict c) \<Rightarrow> (s\<lparr>cache := Some (OwnDict (c(query \<mapsto> result)))\<rparr>, w))"

text \<open>
  \<^verbatim>\<open>DBQuery.__run_query_step\<close>: the result, the object (its cache may have grown) and the
  world. An exception leaves the object and the world as they were when it was raised.
\<close>

definition run_query_step ::
  "('c, 'r, 'df, 'f) driver \<Rightarrow> ('df, 'f) db_query \<Rightarrow> ('c, 'df) world \<Rightarrow> string \<Rightarrow> int option \<Rightarrow>
   bool \<Rightarrow> bool \<Rightarrow> (error + 'df) \<times> ('df, 'f) db_query \<times> ('c, 'df) world" where
  "run_query_step d s w query num_rows use_cache apply_transform =
     (case (if use_cache then cache_get s w query else None) of
        Some res \<Rightarrow> (Inr res, s, w\<lparr>printed := printed w @ [''Using cached result...'']\<rparr>)
      | None \<Rightarrow>
          (case execute d (cursor_state w) query of
             Inl err \<Rightarrow> (Inl err, s, w)
           | Inr c1 \<Rightarrow>
               let cols = description d c1;
                   (data, c2) = (case num_rows of
                                   None \<Rightarrow> fetchall d c1
                                 | Some n \<Rightarrow> fetchmany d c1 n);
                   w2 = w\<lparr>cursor_state := c2\<rparr>
               in (case bind_res (make_df d data cols)
                          (\<lambda>res. if apply_transform \<and> transform s \<noteq> None
                                  then apply_transform_list d (the (transform s)) res
                                  else Inr res) of
                     Inl err \<Rightarrow> (Inl err, s, w2)
                   | Inr res \<Rightarrow>
                       (if use_cache
                        then (case cache_put s w2 query res of (s1, w3) \<Rightarrow> (Inr res, s1, w3))
                        else (Inr res, s, w2)))))"

text \<open>The list comprehension of \<^verbatim>\<open>DBQuery.run\<close>, one step after the other.\<close>

fun run_steps ::
  "('c, 'r, 'df, 'f) driver \<Rightarrow> ('df, 'f) db_query \<Rightarrow> ('c, 'df) world \<Rightarrow> string list \<Rightarrow> bool \<Rightarrow> bool \<Rightarrow>
   (error + 'df list) \<times> ('df, 'f) db_query \<times> ('c, 'df) world" where
  "run_steps d s w [] use_cache apply_transform = (Inr [], s, w)"
| "run_steps d s w (q # qs) use_cache apply_transform =
     (case run_query_step d s w q (limit s) use_cache apply_transform of
        (Inl err, s1, w1) \<Rightarrow> (Inl err, s1, w1)
      | (Inr res, s1, w1) \<Rightarrow>
          (case run_steps d s1 w1 qs use_cache apply_transform of
             (Inl err, s2, w2) \<Rightarrow> (Inl err, s2, w2)
           | (Inr rs, s2, w2) \<Rightarrow> (Inr (res # rs), s2, w2)))"

text \<open>\<^verbatim>\<open>DBQuery.run\<close>\<close>

definition run ::
  "env \<Rightarrow> ('c, 'r, 'df, 'f) driver \<Rightarrow> ('df, 'f) db_query \<Rightarrow> ('c, 'df) world \<Rightarrow> bool \<Rightarrow> bool \<Rightarrow>
   (error + 'df list) \<times> ('df, 'f) db_query \<times> ('c, 'df) world" where
  "run e d s w use_cache apply_transform =
     (case populate_query e s of
        Inl err \<Rightarrow> (Inl err, s, w)
      | Inr s1 \<Rightarrow> run_steps d s1 w (concat (the (qry s1))) use_cache apply_transform)"

section \<open>utils/power\_analysis.py\<close>

subsection \<open>Numbers\<close>

text \<open>
  The arguments \<^verbatim>\<open>p_A\<close>, \<^verbatim>\<open>min_detect_effect\<close>, \<^verbatim>\<open>statistical_significance\<close> and
  \<^verbatim>\<open>min_power\<close> are Python floats and the sample sizes are Python ints. A finite float is
  modelled by the real number it stands for: the rounding of the floating point operations
  and the overflow of a finite intermediate result are not modelled.

  Python's own float division raises on a zero divisor. Dividing a float by an int first
  converts the int, which raises \<^verbatim>\<open>OverflowError\<close> when the int rounds to a value outside the
  range of a double, that is from \<open>2 ^ 1024 - 2 ^ 970\<close> on.
\<close>

definition py_div :: "real \<Rightarrow> real \<Rightarrow> error + real" where
  "py_div a b = (if b = 0 then Inl ZeroDivisionError else Inr (a / b))"

definition float_int_limit :: int where
  "float_int_limit = 2 ^ 1024 - 2 ^ 970"

definition py_float :: "int \<Rightarrow> error + real" where
  "py_float n = (if float_int_limit \<le> \<bar>n\<bar> then Inl OverflowError else Inr (of_int n))"

definition py_div_int :: "real \<Rightarrow> int \<Rightarrow> error + real" where
  "py_div_int a n = bind_res (py_float n) (py_div a)"

text \<open>
  The results of \<^verbatim>\<open>scipy.stats.norm.sf\<close> and \<^verbatim>\<open>scipy.stats.norm.isf\<close> are numpy scalars of
  type \<^verbatim>\<open>float64\<close>, and so is every result of an operation that has one as an operand.
  Their arithmetic raises nothing: it follows IEEE 754, where a division by zero gives an
  infinity or, for \<open>0 / 0\<close>, a NaN. The zero divisors met below are results of
  \<^verbatim>\<open>x ** (1 / 2)\<close>, hence positive zeros.
\<close>

datatype np_float = Fin real | PInf | NInf | NaN

text \<open>\<^verbatim>\<open>a * x\<close> for a Python float \<open>a\<close> and a numpy scalar \<open>x\<close>.\<close>

fun py_mul_np :: "real \<Rightarrow> np_float \<Rightarrow> np_float" where
  "py_mul_np a (Fin x) = Fin (a * x)"
| "py_mul_np a PInf = (if a = 0 then NaN else if 0 < a then PInf else NInf)"
| "py_mul_np a NInf = (if a = 0 then NaN else if 0 < a then NInf else PInf)"
| "py_mul_np a NaN = NaN"

text \<open>\<^verbatim>\<open>a + x\<close> for a Python float \<open>a\<close> and a numpy scalar \<open>x\<close>.\<close>

fun py_add_np :: "real \<Rightarrow> np_float \<Rightarrow> np_float" where
  "py_add_np a (Fin x) = Fin (a + x)"
| "py_add_np a PInf = PInf"
| "py_add_np a NInf = NInf"
| "py_add_np a NaN = NaN"

text \<open>\<^verbatim>\<open>x - b\<close> for a numpy scalar \<open>x\<close> and a Python float \<open>b\<close>.\<close>

fun np_sub_py :: "np_float \<Rightarrow> real \<Rightarrow> np_float" where
  "np_sub_py (Fin x) b = Fin (x - b)"
| "np_sub_py PInf b = PInf"
| "np_sub_py NInf b = NInf"
| "np_sub_py NaN b = NaN"

text \<open>\<^verbatim>\<open>x / b\<close> for a numpy scalar \<open>x\<close> and a Python float \<open>b\<close> that is not a negative zero.\<close>

fun np_div_py :: "np_float \<Rightarrow> real \<Rightarrow> np_float" where
  "np_div_py (Fin x) b =
     (if b = 0 then (if x = 0 then NaN else if 0 < x then PInf else NInf) else Fin (x / b))"
| "np_div_py PInf b = (if 0 \<le> b then PInf else NInf)"
| "np_div_py NInf b = (if 0 \<le> b then NInf else PInf)"
| "np_div_py NaN b = NaN"

text \<open>The comparisons \<^verbatim>\<open>x >= m\<close> and \<^verbatim>\<open>x <= m\<close> of a numpy scalar with a Python float.\<close>

fun np_ge :: "np_float \<Rightarrow> real \<Rightarrow> bool" where
  "np_ge (Fin x) m = (m \<le> x)"
| "np_ge PInf m = True"
| "np_ge NInf m = False"
| "np_ge NaN m = False"

fun np_gt :: "np_float \<Rightarrow> real \<Rightarrow> bool" where
  "np_gt (Fin x) m = (m < x)"
| "np_gt PInf m = True"
| "np_gt NInf m = False"
| "np_gt NaN m = False"

fun np_le :: "np_float \<Rightarrow> real \<Rightarrow> bool" where
  "np_le (Fin x) m = (x \<le> m)"
| "np_le PInf m = False"
| "np_le NInf m = True"
| "np_le NaN m = False"

text \<open>
  A power is a \<^verbatim>\<open>float64\<close> or, when a standard error is complex, a \<^verbatim>\<open>complex128\<close> with its
  real and imaginary part. numpy orders complex numbers lexicographically, and a comparison
  with a NaN imaginary part is false.
\<close>

datatype np_number = Real64 np_float | Complex128 np_float np_float

fun number_ge :: "np_number \<Rightarrow> real \<Rightarrow> bool" where
  "number_ge (Real64 x) m = np_ge x m"
| "number_ge (Complex128 x y) m =
     ((np_gt x m \<and> y \<noteq> NaN) \<or> (x = Fin m \<and> np_ge y 0))"



subsection \<open>p-value and power\<close>

text \<open>
  \<^verbatim>\<open>scipy.stats.norm.sf\<close> and \<^verbatim>\<open>scipy.stats.norm.isf\<close> (with \<^verbatim>\<open>loc=0, scale=1\<close>) belong to a
  library: the functions below take them as the parameters \<open>sf\<close>, on finite arguments, and
  \<open>isf\<close>. At the infinities \<^verbatim>\<open>sf\<close> takes the limits 0 and 1 of a survival function, and a
  NaN is passed on.
\<close>

fun np_sf :: "(real \<Rightarrow> real) \<Rightarrow> np_float \<Rightarrow> np_float" where
  "np_sf sf (Fin x) = Fin (sf x)"
| "np_sf sf PInf = Fin 0"
| "np_sf sf NInf = Fin 1"
| "np_sf sf NaN = NaN"

text \<open>\<^verbatim>\<open>get_p_value\<close>, called on Python floats.\<close>

definition get_p_value :: "(real \<Rightarrow> real) \<Rightarrow> real \<Rightarrow> real \<Rightarrow> bool \<Rightarrow> error + real" where
  "get_p_value sf mean sd two_sided =
     bind_res (py_div mean sd) (\<lambda>z_score.
       let p_val = sf \<bar>z_score\<bar>
       in Inr (if two_sided then p_val * 2 else p_val))"

text \<open>
  \<^verbatim>\<open>get_power\<close>, called on Python floats. The critical value is a numpy scalar, so the
  division by a standard error that is zero raises nothing.
\<close>

definition get_power ::
  "(real \<Rightarrow> real) \<Rightarrow> (real \<Rightarrow> np_float) \<Rightarrow> real \<Rightarrow> real \<Rightarrow> real \<Rightarrow> real \<Rightarrow> bool \<Rightarrow> real \<Rightarrow>
   np_float" where
  "get_power sf isf p_A p_B se1 se2 two_sided significance =
     (let positive = (p_B > p_A);
          null_hyp_z_score = isf significance
      in if positive \<or> \<not> two_sided
         then np_sf sf
                (np_div_py (np_sub_py (py_add_np p_A (py_mul_np se1 null_hyp_z_score)) p_B) se2)
         else np_sf sf
                (np_div_py (np_sub_py (py_add_np p_B (py_mul_np se2 null_hyp_z_score)) p_A) se1))"

text \<open>
  \<^verbatim>\<open>get_p_val_and_power\<close>: the triple (p-value, power, significant).

  \<^verbatim>\<open>x ** (1 / 2)\<close> is the square root of a float \<open>x \<ge> 0\<close>. For \<open>x < 0\<close> Python returns a
  complex number and the function carries on in complex arithmetic, where the p-value
  and the power it arrives at depend on the rounding of each operation. That path is
  therefore a parameter, \<open>complex_path\<close>: it receives the arguments of the call and yields
  what the complex computation yields, a p-value and a power, or the exception it raises.
  The comparison with the thresholds is the same on both paths.
\<close>

type_synonym complex_path =
  "int \<Rightarrow> real \<Rightarrow> real \<Rightarrow> int option \<Rightarrow> bool \<Rightarrow> real \<Rightarrow> error + (np_float \<times> np_number)"

definition get_p_val_and_power ::
  "(real \<Rightarrow> real) \<Rightarrow> (real \<Rightarrow> np_float) \<Rightarrow> complex_path \<Rightarrow> int \<Rightarrow> real \<Rightarrow> real \<Rightarrow> int option \<Rightarrow>
   bool \<Rightarrow> real \<Rightarrow> real \<Rightarrow> error + (np_float \<times> np_number \<times> bool)" where
  "get_p_val_and_power sf isf complex_path nobs_A p_A min_detect_effect nobs_B two_sided
     statistical_significance min_power =
     (let nobs_B' = (case nobs_B of None \<Rightarrow> nobs_A | Some b \<Rightarrow> b);
          p_B = p_A + min_detect_effect;
          significance = (if two_sided then statistical_significance / 2
                          else statistical_significance)
      in bind_res (py_div_int (p_A * (1 - p_A)) nobs_A) (\<lambda>var1.
         bind_res (py_div_int (p_B * (1 - p_B)) nobs_B') (\<lambda>var2.
         bind_res
           (if var1 < 0 \<or> var2 < 0
            then complex_path nobs_A p_A min_detect_effect nobs_B two_sided
                   statistical_significance
            else let se1 = sqrt var1;
                     se2 = sqrt var2;
                     sd_of_sum = sqrt (se1\<^sup>2 + se2\<^sup>2);
                     d_hat = p_B - p_A
                 in bind_res (get_p_value sf d_hat sd_of_sum two_sided) (\<lambda>p_value.
                    Inr (Fin p_value,
                         Real64 (get_power sf isf p_A p_B se1 se2 two_sided significance))))
           (\<lambda>(p_value, power).
              Inr (p_value, power,
                   number_ge power min_power \<and> np_le p_value statistical_significance)))))"

subsection \<open>The search for the sample size\<close>





text \<open>The power component of a result of \<open>get_p_val_and_power\<close>, when there is one.\<close>

definition power_of :: "error + (np_float \<times> np_number \<times> bool) \<Rightarrow> np_number option" where
  "power_of r = (case r of Inl err \<Rightarrow> None | Inr res \<Rightarrow> Some (fst (snd res)))"

subsection \<open>The standard normal distribution\<close>

text \<open>
  Where a statement needs the distribution itself, the parameters are instantiated with
  the survival function of the standard normal distribution and its inverse.
  \<open>gauss_int t\<close> is the power series of \<open>\<integral>\<^sub>0\<^sup>t exp (- s\<^sup>2) ds\<close>, so that
  \<open>norm_sf x = 1/2 - erf (x / sqrt 2) / 2\<close>.
\<close>

definition gauss_coeff :: "nat \<Rightarrow> real" where
  "gauss_coeff n =
     (if even n then 0 else (- 1) ^ ((n - 1) div 2) / (fact ((n - 1) div 2) * real n))"

definition gauss_int :: "real \<Rightarrow> real" where
  "gauss_int t = (\<Sum>n. gauss_coeff n * t ^ n)"

definition norm_sf :: "real \<Rightarrow> real" where
  "norm_sf x = 1 / 2 - gauss_int (x / sqrt 2) / sqrt pi"

definition norm_isf :: "real \<Rightarrow> real" where
  "norm_isf q = (THE x. norm_sf x = q)"

section \<open>utils/stratified\_sampling.py\<close>

subsection \<open>Dataframes\<close>

text \<open>
  A cell holds a raw value of the input (type \<open>'v\<close>), a string, \<^verbatim>\<open>None\<close> or an integer. A
  column has the \<^verbatim>\<open>dtype.kind\<close> character of its dtype and its cells in row order. A
  dataframe is its number of rows and its columns by name; the order of the columns and
  duplicate column names are not modelled, and rows are addressed by position, which is
  what the index is after \<^verbatim>\<open>reset_index(drop=True)\<close>.
\<close>

datatype 'v cell = Raw 'v | Str string | PyNone | PyInt int

record 'v column =
  kind :: char
  cells :: "'v cell list"

record 'v dataframe =
  nrows :: nat
  columns :: "string \<rightharpoonup> 'v column"

text \<open>
  pandas is a library: \<open>qcut xs q\<close> is \<^verbatim>\<open>pd.qcut(xs, q=q)\<close> (it can raise), \<open>astype_str\<close> is
  what \<^verbatim>\<open>astype(str)\<close> makes of one cell, and \<open>sample i key rows k\<close> is the choice
  \<^verbatim>\<open>x.sample(frac=1 / k)\<close> makes in round \<open>i\<close> among the rows \<open>rows\<close> of the stratum \<open>key\<close>:
  the random generator is an oracle. pandas refuses some lists of group keys (an empty
  list for a frame that has rows, a column name that occurs twice):
  \<open>group_keys_error cols n\<close> is the exception it raises when asked to group a frame of \<open>n\<close>
  rows by the columns \<open>cols\<close>, if it raises one.
\<close>

record 'v pandas =
  qcut :: "'v cell list \<Rightarrow> int \<Rightarrow> error + 'v cell list"
  astype_str :: "'v cell \<Rightarrow> string"
  sample :: "nat \<Rightarrow> 'v cell list \<Rightarrow> nat list \<Rightarrow> nat \<Rightarrow> nat list"
  group_keys_error :: "string list \<Rightarrow> nat \<Rightarrow> error option"

text \<open>
  What the code relies on from \<^verbatim>\<open>sample\<close>: it draws without replacement among the
  (distinct) rows it is given, and the number of rows drawn for \<^verbatim>\<open>frac = 1 / k\<close> is \<^verbatim>\<open>round(frac * len)\<close>, which
  lies between the floor and the ceiling of \<open>len / k\<close>.
\<close>

definition sample_ok :: "'v pandas \<Rightarrow> bool" where
  "sample_ok pd =
     (\<forall>i key rows k. distinct rows \<and> 1 \<le> k \<longrightarrow>
        distinct (sample pd i key rows k)
        \<and> set (sample pd i key rows k) \<subseteq> set rows
        \<and> length rows div k \<le> length (sample pd i key rows k)
        \<and> length (sample pd i key rows k) \<le> (length rows + k - 1) div k)"

text \<open>\<^verbatim>\<open>df[name] = values\<close> with a dtype of kind \<open>k\<close>.\<close>

definition set_col :: "'v dataframe \<Rightarrow> string \<Rightarrow> char \<Rightarrow> 'v cell list \<Rightarrow> 'v dataframe" where
  "set_col df name k vs = df\<lparr>columns := (columns df)(name \<mapsto> \<lparr>kind = k, cells = vs\<rparr>)\<rparr>"

subsection \<open>The stratification columns\<close>

text \<open>\<^verbatim>\<open>dtype.kind in "biufc"\<close>: a boolean, integer, unsigned, float or complex column.\<close>

definition is_numeric_kind :: "char \<Rightarrow> bool" where
  "is_numeric_kind k = (k \<in> set ''biufc'')"

text \<open>
  The body of the first loop of \<^verbatim>\<open>proportional_stratified_sample\<close> for one column: a
  numeric column is cut into quantile buckets and the buckets are turned into strings, any
  other column is turned into strings; the result is stored as \<^verbatim>\<open>col + "_stratify"\<close>.
\<close>

definition stratify_col :: "'v pandas \<Rightarrow> int \<Rightarrow> 'v dataframe \<Rightarrow> string \<Rightarrow> error + 'v dataframe" where
  "stratify_col pd buckets df col =
     (case columns df col of
        None \<Rightarrow> Inl KeyError
      | Some c \<Rightarrow>
          if is_numeric_kind (kind c)
          then (case qcut pd (cells c) buckets of
                  Inl err \<Rightarrow> Inl err
                | Inr qs \<Rightarrow>
                    Inr (set_col (set_col df (col @ ''_stratify'') CHR ''O'' qs)
                           (col @ ''_stratify'') CHR ''O''
                           (map (\<lambda>x. Str (astype_str pd x)) qs)))
          else Inr (set_col df (col @ ''_stratify'') CHR ''O''
                      (map (\<lambda>x. Str (astype_str pd x)) (cells c))))"

text \<open>
  The first loop. It works on the caller's dataframe: the first component of the result is
  that dataframe as the loop leaves it, also when the loop raises; the second is
  \<^verbatim>\<open>transformed_stratify_cols\<close>.
\<close>

fun add_stratify_cols ::
  "'v pandas \<Rightarrow> int \<Rightarrow> 'v dataframe \<Rightarrow> string list \<Rightarrow> 'v dataframe \<times> (error + string list)" where
  "add_stratify_cols pd buckets df [] = (df, Inr [])"
| "add_stratify_cols pd buckets df (col # rest) =
     (case stratify_col pd buckets df col of
        Inl err \<Rightarrow> (df, Inl err)
      | Inr df1 \<Rightarrow>
          (case add_stratify_cols pd buckets df1 rest of
             (df2, Inl err) \<Rightarrow> (df2, Inl err)
           | (df2, Inr ts) \<Rightarrow> (df2, Inr ((col @ ''_stratify'') # ts))))"

text \<open>The stratum of each row: its values in the transformed columns.\<close>

definition row_keys :: "'v dataframe \<Rightarrow> string list \<Rightarrow> 'v cell list list" where
  "row_keys df tcols =
     map (\<lambda>r. map (\<lambda>c. cells (the (columns df c)) ! r) tcols) [0..<nrows df]"

text \<open>
  \<^verbatim>\<open>df[cols].value_counts()\<close>: every stratum that occurs, with the number of its rows.
\<close>

definition value_counts ::
  "'v pandas \<Rightarrow> 'v dataframe \<Rightarrow> string list \<Rightarrow> error + ('v cell list \<times> nat) list" where
  "value_counts pd df cols =
     (case group_keys_error pd cols (nrows df) of
        Some err \<Rightarrow> Inl err
      | None \<Rightarrow>
          let ks = row_keys df cols
          in Inr (map (\<lambda>key. (key, count_list ks key)) (remdups ks)))"

text \<open>
  \<^verbatim>\<open>bucket_counts.min() >= n_splits\<close>; the minimum of no counts is \<^verbatim>\<open>nan\<close>, and the
  comparison is false.
\<close>

definition bucket_ok :: "('k \<times> nat) list \<Rightarrow> int \<Rightarrow> bool" where
  "bucket_ok bucket_counts n_splits =
     (bucket_counts \<noteq> [] \<and> n_splits \<le> int (Min (snd ` set bucket_counts)))"

subsection \<open>The assignment of groups\<close>

text \<open>The rows whose group is still \<^verbatim>\<open>None\<close>.\<close>

definition ungrouped_rows :: "'v cell list \<Rightarrow> nat list" where
  "ungrouped_rows g = filter (\<lambda>r. g ! r = PyNone) [0..<length g]"

text \<open>
  One round of the second loop: within every stratum of the ungrouped rows a sample is
  drawn with \<^verbatim>\<open>frac = 1 / (n_splits - i)\<close>, and the rows drawn get group \<open>i\<close>.
\<close>

definition sample_round ::
  "'v pandas \<Rightarrow> 'v cell list list \<Rightarrow> int \<Rightarrow> nat \<Rightarrow> 'v cell list \<Rightarrow> 'v cell list" where
  "sample_round pd ks n_splits i g =
     (let df_ungroupped = ungrouped_rows g;
          strata = remdups (map (\<lambda>r. ks ! r) df_ungroupped);
          group_i_indices =
            concat (map (\<lambda>key. sample pd i key (filter (\<lambda>r. ks ! r = key) df_ungroupped)
                                  (nat (n_splits - int i)))
                        strata)
      in map (\<lambda>r. if r \<in> set group_i_indices then PyInt (int i) else g ! r) [0..<length g])"

text \<open>\<^verbatim>\<open>for i in range(n_splits)\<close>\<close>

definition assign_groups ::
  "'v pandas \<Rightarrow> 'v cell list list \<Rightarrow> int \<Rightarrow> 'v cell list \<Rightarrow> 'v cell list" where
  "assign_groups pd ks n_splits g = fold (sample_round pd ks n_splits) [0..<nat n_splits] g"

text \<open>
  \<^verbatim>\<open>proportional_stratified_sample\<close>: the caller's dataframe after the call, and the
  returned dataframe or the exception raised.
\<close>

definition proportional_stratified_sample ::
  "'v pandas \<Rightarrow> 'v dataframe \<Rightarrow> string list \<Rightarrow> int \<Rightarrow> int \<Rightarrow>
   'v dataframe \<times> (error + 'v dataframe)" where
  "proportional_stratified_sample pd df stratify_cols n_splits num_variables_default_buckets =
     (if ''group'' \<in> dom (columns df) then (df, Inl AssertionError)
      else
        (case add_stratify_cols pd num_variables_default_buckets df stratify_cols of
           (df1, Inl err) \<Rightarrow> (df1, Inl err)
         | (df1, Inr transformed_stratify_cols) \<Rightarrow>
             (case value_counts pd df1 transformed_stratify_cols of
                Inl err \<Rightarrow> (df1, Inl err)
              | Inr bucket_counts \<Rightarrow>
                  if \<not> bucket_ok bucket_counts n_splits then (df1, Inl AssertionError)
                  else
                    let ks = row_keys df1 transformed_stratify_cols;
                        g = assign_groups pd ks n_splits (replicate (nrows df1) PyNone)
                    in if PyNone \<in> set g then (df1, Inl AssertionError)
                       else (df1,
                             Inr \<lparr>nrows = nrows df1,
                                  columns = ((columns df1)(''group'' \<mapsto> \<lparr>kind = CHR ''O'', cells = g\<rparr>))
                                            |` (- set transformed_stratify_cols)\<rparr>))))"

text \<open>The rows of stratum \<open>key\<close> that carry the group label \<open>v\<close>.\<close>

definition stratum_rows :: "'k list \<Rightarrow> 'c list \<Rightarrow> 'k \<Rightarrow> 'c \<Rightarrow> nat set" where
  "stratum_rows ks g key v = {r. r < length g \<and> ks ! r = key \<and> g ! r = v}"

subsection \<open>A small instance\<close>

text \<open>
  An instance to evaluate the definitions on: four rows in two cities, a \<^verbatim>\<open>qcut\<close> that keeps
  its input, a sampler that takes the first \<open>len div k\<close> rows of a stratum, and a grouping
  that refuses an empty list of keys on a frame with rows and a repeated key.
\<close>

definition demo_pandas :: "nat pandas" where
  "demo_pandas =
     \<lparr>qcut = (\<lambda>xs q. Inr xs),
      astype_str = (\<lambda>c. case c of Str s \<Rightarrow> s | _ \<Rightarrow> ''?''),
      sample = (\<lambda>i key rows k. take (length rows div k) rows),
      group_keys_error = (\<lambda>cols n. if \<not> distinct cols \<or> (cols = [] \<and> 0 < n)
                                     then Some ValueError else None)\<rparr>"

definition demo_frame :: "nat dataframe" where
  "demo_frame =
     \<lparr>nrows = 4,
      columns = [''city'' \<mapsto> \<lparr>kind = CHR ''O'',
                                 cells = [Str ''a'', Str ''a'', Str ''b'', Str ''b'']\<rparr>]\<rparr>"

definition demo_frame_stratified :: "nat dataframe" where
  "demo_frame_stratified =
     set_col demo_frame ''city_stratify'' CHR ''O'' [Str ''a'', Str ''a'', Str ''b'', Str ''b'']"

definition demo_result :: "nat dataframe" where
  "demo_result =
     \<lparr>nrows = 4,
      columns = ((columns demo_frame_stratified)
                   (''group'' \<mapsto> \<lparr>kind = CHR ''O'', cells = [PyInt 0, PyInt 1, PyInt 0, PyInt 1]\<rparr>))
                |` (- {''city_stratify''})\<rparr>"

section \<open>Properties of the query splitting\<close>

subsection \<open>Marker indices\<close>

lemma enumerate_Suc_idx:
  "map fst (filter (\<lambda>(i, e). P e) (enumerate (Suc n) q)) =
   map Suc (map fst (filter (\<lambda>(i, e). P e) (enumerate n q)))"
  by (induction q arbitrary: n) simp_all

lemma indices_where_Nil [simp]: "indices_where P [] = []"
  by (simp add: indices_where_def)

lemma indices_where_Cons:
  "indices_where P (a # q) = (if P a then [0] else []) @ map Suc (indices_where P q)"
  by (simp add: indices_where_def enumerate_Suc_idx)

lemma indices_where_append:
  "indices_where P (xs @ ys) = indices_where P xs @ map ((+) (length xs)) (indices_where P ys)"
  by (induction xs) (simp_all add: indices_where_Cons comp_def)

lemma indices_where_empty_iff: "indices_where P q = [] \<longleftrightarrow> (\<forall>e \<in> set q. \<not> P e)"
  by (induction q) (simp_all add: indices_where_Cons)

lemma indices_where_bound: "i \<in> set (indices_where P q) \<Longrightarrow> i < length q"
  by (induction q arbitrary: i) (auto simp: indices_where_Cons split: if_splits)

lemma indices_where_sorted: "sorted_wrt (<) (indices_where P q)"
  by (induction q) (auto simp: indices_where_Cons sorted_wrt_append sorted_wrt_map)

lemma indices_where_hd:
  "indices_where P q \<noteq> [] \<Longrightarrow> hd (indices_where P q) = length (takeWhile (\<lambda>e. \<not> P e) q)"
  by (induction q) (auto simp: indices_where_Cons hd_map)

subsection \<open>Steps within a group\<close>

lemma prefix_concat_take:
  "n \<le> m \<Longrightarrow> prefix (concat (take n xs)) (concat (take m xs))"
proof -
  assume "n \<le> m"
  then have "take m xs = take n xs @ take (m - n) (drop n xs)"
    by (metis le_add_diff_inverse take_add)
  then show ?thesis by (simp add: prefix_def)
qed

lemma prefix_concat_take_all: "prefix (concat (take n xs)) (concat xs)"
  by (metis append_take_drop_id concat_append prefixI)

lemma first_marker_pos_hd:
  "first_marker_pos q = (case indices_where is_step_marker q of [] \<Rightarrow> 0 | i # _ \<Rightarrow> i)"
proof (cases "indices_where is_step_marker q")
  case Nil
  then show ?thesis
    using indices_where_empty_iff[of is_step_marker q]
    by (simp add: first_marker_pos_def list_ex_iff)
next
  case (Cons i rest)
  then have ne: "indices_where is_step_marker q \<noteq> []" by simp
  then have "list_ex is_step_marker q"
    using indices_where_empty_iff[of is_step_marker q] by (auto simp: list_ex_iff)
  then show ?thesis
    using indices_where_hd[OF ne] Cons by (simp add: first_marker_pos_def)
qed

lemma process_steps_no_marker:
  "indices_where is_step_marker q = [] \<Longrightarrow> process_steps q = [concat q]"
  by (simp add: process_steps_def py_slice_def)

lemma process_steps_marker:
  "indices_where is_step_marker q = b # rest \<Longrightarrow>
   process_steps q = map (\<lambda>s. concat (take (s - b) (drop b q))) rest @ [concat (drop b q)]"
  by (simp add: process_steps_def py_slice_def comp_def)

text \<open>
  Claim C9. Within a group, \<open>process_steps\<close> yields one step per marker line (one step when
  there is none). Every step starts at the first marker (at the group start when no line
  holds a marker); step \<open>i\<close>, when it is not the last, stops just before marker \<open>i + 1\<close>;
  the last step runs to the end of the group; and each earlier step is a prefix of every
  later one.
\<close>

theorem process_steps_prefix_chain:
  "let steps = process_steps q; start = first_marker_pos q;
       marks = indices_where is_step_marker q
   in length steps = max 1 (length marks)
    \<and> (\<forall>i. i + 1 < length steps \<longrightarrow>
          steps ! i = concat (take (marks ! (i + 1) - start) (drop start q)))
    \<and> last steps = concat (drop start q)
    \<and> (\<forall>i j. i \<le> j \<and> j < length steps \<longrightarrow> prefix (steps ! i) (steps ! j))"
proof (cases "indices_where is_step_marker q")
  case Nil
  then show ?thesis
    by (simp add: process_steps_no_marker first_marker_pos_hd)
next
  case (Cons b rest)
  let ?f = "\<lambda>s. concat (take (s - b) (drop b q))"
  have ps: "process_steps q = map ?f rest @ [concat (drop b q)]"
    by (rule process_steps_marker[OF Cons])
  have start: "first_marker_pos q = b"
    by (simp add: first_marker_pos_hd Cons)
  have sorted: "sorted_wrt (<) rest"
    using indices_where_sorted[of is_step_marker q] Cons by simp
  have len: "length (process_steps q) = Suc (length rest)" by (simp add: ps)
  have nth_lt: "process_steps q ! i = ?f (rest ! i)" if "i < length rest" for i
    using that by (simp add: ps nth_append)
  have nth_last: "process_steps q ! (length rest) = concat (drop b q)"
    by (simp add: ps nth_append)
  have pre: "prefix (process_steps q ! i) (process_steps q ! j)"
    if "i \<le> j" "j < length (process_steps q)" for i j
  proof (cases "j < length rest")
    case True
    then have "i < length rest" using that by simp
    have "rest ! i \<le> rest ! j"
    proof (cases "i = j")
      case True then show ?thesis by simp
    next
      case False
      then have "i < j" using that by simp
      then show ?thesis using sorted_wrt_nth_less[OF sorted, of i j] True by simp
    qed
    then have "rest ! i - b \<le> rest ! j - b" by simp
    then show ?thesis
      using nth_lt[OF True] nth_lt[OF \<open>i < length rest\<close>] by (simp add: prefix_concat_take)
  next
    case False
    then have j: "j = length rest" using that len by simp
    show ?thesis
    proof (cases "i < length rest")
      case True
      then show ?thesis using nth_lt[OF True] nth_last j by (simp add: prefix_concat_take_all)
    next
      case False
      then have "i = j" using that j by simp
      then show ?thesis by simp
    qed
  qed
  show ?thesis
    using pre nth_lt by (simp add: Let_def start Cons len ps)
qed

lemma ex_steps:
  "process_steps [''-- BASE_QUERY'', ''select 1'', ''-- QUERY_STEP'', ''from dual'']
     = [''-- BASE_QUERYselect 1'', ''-- BASE_QUERYselect 1-- QUERY_STEPfrom dual'']"
  by (simp add: process_steps_def indices_where_def is_step_marker_def py_slice_def enumerate_eq_zip upt_rec)

theorem process_steps_prefix_chain_witness:
  "length (process_steps [''-- BASE_QUERY'', ''select 1'', ''-- QUERY_STEP'', ''from dual'']) = 2
   \<and> prefix (process_steps [''-- BASE_QUERY'', ''select 1'', ''-- QUERY_STEP'', ''from dual''] ! 0)
        (process_steps [''-- BASE_QUERY'', ''select 1'', ''-- QUERY_STEP'', ''from dual''] ! 1)
   \<and> last (process_steps [''-- BASE_QUERY'', ''select 1'', ''-- QUERY_STEP'', ''from dual''])
        = ''-- BASE_QUERYselect 1-- QUERY_STEPfrom dual''"
proof -
  let ?q = "[''-- BASE_QUERY'', ''select 1'', ''-- QUERY_STEP'', ''from dual'']"
  have chain: "\<forall>i j. i \<le> j \<and> j < length (process_steps ?q)
                  \<longrightarrow> prefix (process_steps ?q ! i) (process_steps ?q ! j)"
    using process_steps_prefix_chain[of ?q] unfolding Let_def by blast
  have "(0::nat) \<le> 1 \<and> 1 < length (process_steps ?q)" by (simp add: ex_steps)
  with chain have "prefix (process_steps ?q ! 0) (process_steps ?q ! 1)" by blast
  then show ?thesis by (simp add: ex_steps)
qed

subsection \<open>Groups of a script\<close>

lemma py_slice_shift:
  "py_slice (pre @ rest) (length pre + a) (map_option ((+) (length pre)) b) = py_slice rest a b"
  by (cases b) (simp_all add: py_slice_def)

lemma process_subqueries_groups_shift:
  assumes "\<forall>l \<in> set pre. \<not> is_sub_query_marker l"
  shows "process_subqueries (pre @ rest) = process_subqueries rest"
proof -
  let ?n = "length pre"
  let ?I = "indices_where is_sub_query_marker rest"
  have pre0: "indices_where is_sub_query_marker pre = []"
    using assms by (simp add: indices_where_empty_iff)
  have idx: "indices_where is_sub_query_marker (pre @ rest) = map ((+) ?n) ?I"
    by (simp add: indices_where_append pre0)
  have ends: "map Some (tl (map ((+) ?n) ?I)) @ [None]
              = map (map_option ((+) ?n)) (map Some (tl ?I) @ [None])"
    by (simp add: map_tl comp_def)
  have "map (\<lambda>(a, b). py_slice (pre @ rest) a b)
          (zip (map ((+) ?n) ?I) (map Some (tl (map ((+) ?n) ?I)) @ [None]))
        = map (\<lambda>(a, b). py_slice rest a b) (zip ?I (map Some (tl ?I) @ [None]))"
    unfolding ends zip_map_map
    by (simp add: case_prod_unfold py_slice_shift)
  then show ?thesis
    by (simp only: process_subqueries_def Let_def idx)
qed

lemma process_subqueries_dropWhile:
  "process_subqueries ls = process_subqueries (dropWhile (\<lambda>l. \<not> is_sub_query_marker l) ls)"
proof -
  have "\<forall>l \<in> set (takeWhile (\<lambda>l. \<not> is_sub_query_marker l) ls). \<not> is_sub_query_marker l"
    by (auto dest: set_takeWhileD)
  from process_subqueries_groups_shift[OF this, of "dropWhile (\<lambda>l. \<not> is_sub_query_marker l) ls"]
  show ?thesis by simp
qed

lemma process_subqueries_no_marker:
  "\<forall>l \<in> set ls. \<not> is_sub_query_marker l \<Longrightarrow> process_subqueries ls = []"
  by (simp add: process_subqueries_def indices_where_empty_iff[THEN iffD2])

text \<open>
  Claim C8. When the object splits by steps and no line of its script contains
  \<^verbatim>\<open>SUB_QUERY\<close>, \<open>populate_query\<close> leaves an empty list of groups and \<open>run\<close> returns the
  empty list, with the cursor and the printed lines untouched. In general the groups only
  depend on the lines from the first \<^verbatim>\<open>SUB_QUERY\<close> line on: lines before it are dropped.
\<close>

theorem run_without_sub_query_marker:
  "(load_lines e s = Inr ls \<and> by_steps s \<and> (\<forall>l \<in> set ls. \<not> is_sub_query_marker l)
      \<longrightarrow> populate_query e s = Inr (s\<lparr>qry := Some []\<rparr>)
        \<and> run e d s w use_cache apply_transform = (Inr [], s\<lparr>qry := Some []\<rparr>, w))
   \<and> process_subqueries (pre @ ls)
       = process_subqueries (dropWhile (\<lambda>l. \<not> is_sub_query_marker l) (pre @ ls))
   \<and> ((\<forall>l \<in> set pre. \<not> is_sub_query_marker l)
        \<longrightarrow> process_subqueries (pre @ ls) = process_subqueries ls)"
proof (intro conjI impI)
  assume a: "load_lines e s = Inr ls \<and> by_steps s \<and> (\<forall>l \<in> set ls. \<not> is_sub_query_marker l)"
  then show p: "populate_query e s = Inr (s\<lparr>qry := Some []\<rparr>)"
    by (simp add: populate_query_def bind_res_def process_subqueries_no_marker)
  show "run e d s w use_cache apply_transform = (Inr [], s\<lparr>qry := Some []\<rparr>, w)"
    by (simp add: run_def p)
next
  show "process_subqueries (pre @ ls)
       = process_subqueries (dropWhile (\<lambda>l. \<not> is_sub_query_marker l) (pre @ ls))"
    by (rule process_subqueries_dropWhile)
next
  assume "\<forall>l \<in> set pre. \<not> is_sub_query_marker l"
  then show "process_subqueries (pre @ ls) = process_subqueries ls"
    by (rule process_subqueries_groups_shift)
qed

lemma no_marker_example: "\<not> is_sub_query_marker ''select 1''"
  by (simp add: is_sub_query_marker_def)

theorem run_without_sub_query_marker_witness:
  "run \<lparr>cwd = ''/w'', path_join = (\<lambda>a b. a @ ''/'' @ b), read_lines = (\<lambda>p. Inl FileNotFoundError)\<rparr>
       (\<lparr>execute = (\<lambda>c q. Inr c), description = (\<lambda>c. []), fetchall = (\<lambda>c. ([], c)),
        fetchmany = (\<lambda>c n. ([], c)), make_df = (\<lambda>rs cs. Inr 0),
        apply_col = (\<lambda>df c f. Inr df)\<rparr> :: (nat, nat, nat, nat) driver)
       \<lparr>root_folder = None, by_file = False, file_path = None, raw_qry = Some ''select 1'',
        by_steps = True, qry = None, limit = None, transform = None, cache = None\<rparr>
       \<lparr>cursor_state = 0, printed = [], default_dict = Map.empty\<rparr> True True
     = (Inr [],
        \<lparr>root_folder = None, by_file = False, file_path = None, raw_qry = Some ''select 1'',
         by_steps = True, qry = Some [], limit = None, transform = None, cache = None\<rparr>,
        \<lparr>cursor_state = 0, printed = [], default_dict = Map.empty\<rparr>)
   \<and> process_subqueries ([''select 1''] @ [''-- SUB_QUERY a'', ''select 2''])
       = process_subqueries [''-- SUB_QUERY a'', ''select 2'']"
proof -
  let ?e = "\<lparr>cwd = ''/w'', path_join = (\<lambda>a b. a @ ''/'' @ b), read_lines = (\<lambda>p. Inl FileNotFoundError)\<rparr>"
  let ?d = "\<lparr>execute = (\<lambda>c q. Inr c), description = (\<lambda>c. []), fetchall = (\<lambda>c. ([], c)),
        fetchmany = (\<lambda>c n. ([], c)), make_df = (\<lambda>rs cs. Inr 0),
        apply_col = (\<lambda>df c f. Inr df)\<rparr> :: (nat, nat, nat, nat) driver"
  let ?s = "\<lparr>root_folder = None, by_file = False, file_path = None, raw_qry = Some ''select 1'',
        by_steps = True, qry = None, limit = None, transform = (None :: (string \<times> nat) list option),
        cache = (None :: nat cache_ref option)\<rparr>"
  let ?w = "\<lparr>cursor_state = 0 :: nat, printed = [], default_dict = (Map.empty :: string \<rightharpoonup> nat)\<rparr>"
  have pre: "load_lines ?e ?s = Inr [''select 1''] \<and> by_steps ?s
             \<and> (\<forall>l \<in> set [''select 1'']. \<not> is_sub_query_marker l)"
    by (simp add: load_lines_def no_marker_example)
  have pre2: "\<forall>l \<in> set [''select 1'']. \<not> is_sub_query_marker l"
    by (simp add: no_marker_example)
  have r: "run ?e ?d ?s ?w True True = (Inr [], ?s\<lparr>qry := Some []\<rparr>, ?w)"
    using run_without_sub_query_marker[of ?e ?s "[''select 1'']" ?d ?w True True "[]"] pre
    by blast
  have g: "process_subqueries ([''select 1''] @ [''-- SUB_QUERY a'', ''select 2''])
       = process_subqueries [''-- SUB_QUERY a'', ''select 2'']"
    using run_without_sub_query_marker[of ?e ?s "[''-- SUB_QUERY a'', ''select 2'']" ?d ?w True True
        "[''select 1'']"] pre2
    by blast
  have upd: "?s\<lparr>qry := Some []\<rparr> = \<lparr>root_folder = None, by_file = False, file_path = None, raw_qry = Some ''select 1'',
         by_steps = True, qry = Some [], limit = None, transform = None, cache = None\<rparr>"
    by simp
  show ?thesis
    using r g unfolding upd by (rule conjI)
qed

subsection \<open>Reprocessing\<close>

text \<open>
  Claim C5. Processing the script again gives the same object: \<open>populate_query\<close> is
  idempotent, and the groups it stores depend only on the lines read and on \<open>by_steps\<close>,
  not on what the object held before.
\<close>

theorem populate_query_idempotent:
  fixes s :: "('df, 'f) db_query"
  assumes "populate_query e s = Inr s1"
  shows "populate_query e s1 = Inr s1
       \<and> (\<forall>t :: ('df, 'f) db_query. load_lines e t = load_lines e s \<and> by_steps t = by_steps s
             \<longrightarrow> (\<exists>t1. populate_query e t = Inr t1 \<and> qry t1 = qry s1))"
proof -
  obtain ls where ls: "load_lines e s = Inr ls"
    using assms by (cases "load_lines e s") (simp_all add: populate_query_def bind_res_def)
  have s1: "s1 = s\<lparr>qry := Some (if by_steps s then process_subqueries ls else [[concat ls]])\<rparr>"
    using assms ls by (simp add: populate_query_def bind_res_def split: if_splits)
  have same: "load_lines e s1 = Inr ls"
    using ls by (auto simp: s1 load_lines_def split: if_splits)
  have "populate_query e s1 = Inr s1"
    using same by (simp add: populate_query_def bind_res_def s1)
  moreover have "\<exists>t1. populate_query e t = Inr t1 \<and> qry t1 = qry s1"
    if "load_lines e t = load_lines e s \<and> by_steps t = by_steps s" for t :: "('df, 'f) db_query"
    using that ls by (simp add: populate_query_def bind_res_def s1)
  ultimately show ?thesis by blast
qed

lemma ex_groups: "process_subqueries [''-- SUB_QUERY a''] = [[''-- SUB_QUERY a'']]"
  by (simp add: process_subqueries_def process_steps_def indices_where_def
        is_sub_query_marker_def is_step_marker_def py_slice_def enumerate_eq_zip)

theorem populate_query_idempotent_witness:
  "populate_query \<lparr>cwd = ''/w'', path_join = (\<lambda>a b. a @ ''/'' @ b), read_lines = (\<lambda>p. Inl FileNotFoundError)\<rparr>
     \<lparr>root_folder = None, by_file = False, file_path = None,
      raw_qry = Some ''-- SUB_QUERY a'', by_steps = True, qry = None, limit = None,
      transform = (None :: (string \<times> nat) list option),
      cache = (None :: nat cache_ref option)\<rparr>
   = Inr \<lparr>root_folder = None, by_file = False, file_path = None,
      raw_qry = Some ''-- SUB_QUERY a'', by_steps = True, qry = Some [[''-- SUB_QUERY a'']],
      limit = None, transform = None, cache = None\<rparr>
   \<and> populate_query \<lparr>cwd = ''/w'', path_join = (\<lambda>a b. a @ ''/'' @ b), read_lines = (\<lambda>p. Inl FileNotFoundError)\<rparr>
     \<lparr>root_folder = None, by_file = False, file_path = None,
      raw_qry = Some ''-- SUB_QUERY a'', by_steps = True, qry = Some [[''-- SUB_QUERY a'']],
      limit = None, transform = (None :: (string \<times> nat) list option),
      cache = (None :: nat cache_ref option)\<rparr>
   = Inr \<lparr>root_folder = None, by_file = False, file_path = None,
      raw_qry = Some ''-- SUB_QUERY a'', by_steps = True, qry = Some [[''-- SUB_QUERY a'']],
      limit = None, transform = None, cache = None\<rparr>"
proof -
  let ?e = "\<lparr>cwd = ''/w'', path_join = (\<lambda>a b. a @ ''/'' @ b), read_lines = (\<lambda>p. Inl FileNotFoundError)\<rparr>"
  let ?s = "\<lparr>root_folder = None, by_file = False, file_path = None,
      raw_qry = Some ''-- SUB_QUERY a'', by_steps = True, qry = None, limit = None,
      transform = (None :: (string \<times> nat) list option),
      cache = (None :: nat cache_ref option)\<rparr>"
  let ?s1 = "\<lparr>root_folder = None, by_file = False, file_path = None,
      raw_qry = Some ''-- SUB_QUERY a'', by_steps = True, qry = Some [[''-- SUB_QUERY a'']], limit = None,
      transform = (None :: (string \<times> nat) list option),
      cache = (None :: nat cache_ref option)\<rparr>"
  have ll: "load_lines ?e ?s = Inr [''-- SUB_QUERY a'']"
    by (simp add: load_lines_def)
  have first: "populate_query ?e ?s = Inr ?s1"
    by (simp add: populate_query_def load_lines_def bind_res_def ex_groups)
  from populate_query_idempotent[OF first] have "populate_query ?e ?s1 = Inr ?s1" by (rule conjunct1)
  with first show ?thesis by (rule conjI)
qed

subsection \<open>The constructor\<close>

text \<open>
  Claim C7. The constructor ends in \<open>AssertionError\<close> exactly when both \<open>file_name\<close> and
  \<open>query\<close> are \<open>None\<close>, whatever the other arguments are.
\<close>

theorem init_db_query_assertion:
  "init_db_query e file_name query base_folder root_folder' by_steps' limit' use_cache old_cache
     transform' = Inl AssertionError
   \<longleftrightarrow> file_name = None \<and> query = None"
proof -
  have pq: "populate_query e s \<noteq> Inl AssertionError" for s :: "('a, 'b) db_query"
    by (auto simp: populate_query_def load_lines_def bind_res_def split: option.splits sum.splits)
  show ?thesis
    using pq
    by (auto simp: init_db_query_def bind_res_def Let_def split: sum.splits if_splits)
qed

theorem init_db_query_assertion_witness:
  "init_db_query \<lparr>cwd = ''/w'', path_join = (\<lambda>a b. a @ ''/'' @ b), read_lines = (\<lambda>p. Inl FileNotFoundError)\<rparr>
     None None (Some ''queries'') None True None True (OldCacheNone :: nat old_cache_arg)
     (None :: (string \<times> nat) list option) = Inl AssertionError
   \<and> init_db_query \<lparr>cwd = ''/w'', path_join = (\<lambda>a b. a @ ''/'' @ b), read_lines = (\<lambda>p. Inl FileNotFoundError)\<rparr>
     None (Some ''select 1'') None None True None True (OldCacheNone :: nat old_cache_arg)
     (None :: (string \<times> nat) list option) \<noteq> Inl AssertionError"
proof -
  let ?e = "\<lparr>cwd = ''/w'', path_join = (\<lambda>a b. a @ ''/'' @ b), read_lines = (\<lambda>p. Inl FileNotFoundError)\<rparr>"
  have a: "init_db_query ?e None None (Some ''queries'') None True None True
             (OldCacheNone :: nat old_cache_arg) (None :: (string \<times> nat) list option)
           = Inl AssertionError"
    using init_db_query_assertion[of ?e None None "Some ''queries''" None True None True
           "OldCacheNone :: nat old_cache_arg" "None :: (string \<times> nat) list option"]
    by blast
  have b: "init_db_query ?e None (Some ''select 1'') None None True None True
             (OldCacheNone :: nat old_cache_arg) (None :: (string \<times> nat) list option)
           \<noteq> Inl AssertionError"
    using init_db_query_assertion[of ?e None "Some ''select 1''" None None True None True
           "OldCacheNone :: nat old_cache_arg" "None :: (string \<times> nat) list option"]
    by blast
  from a b show ?thesis by (rule conjI)
qed

section \<open>Properties of the power analysis\<close>

subsection \<open>Results and errors\<close>


lemma bind_res_Inr [simp]: "bind_res (Inr x) f = f x"
  by (simp add: bind_res_def)

lemma bind_res_Inl [simp]: "bind_res (Inl e) f = Inl e"
  by (simp add: bind_res_def)

subsection \<open>One-sided and two-sided p-values\<close>

text \<open>
  Claim C4. For every mean and every positive standard deviation, the two-sided p-value is
  exactly twice the one-sided one; more generally the two-sided call is the one-sided call
  with its result doubled, also where the call raises.
\<close>

theorem get_p_value_two_sided:
  "get_p_value sf mean sd True = map_sum id ((*) 2) (get_p_value sf mean sd False)
   \<and> (0 < sd \<longrightarrow> (\<exists>p. get_p_value sf mean sd False = Inr p
                      \<and> get_p_value sf mean sd True = Inr (2 * p)))"
  by (simp add: get_p_value_def py_div_def)

theorem get_p_value_two_sided_witness:
  "get_p_value norm_sf 1 2 False = Inr (norm_sf (1 / 2))
   \<and> get_p_value norm_sf 1 2 True = Inr (2 * norm_sf (1 / 2))"
proof -
  have "(0::real) < 2" by simp
  with get_p_value_two_sided[of norm_sf 1 2]
  obtain p where p: "get_p_value norm_sf 1 2 False = Inr p"
    "get_p_value norm_sf 1 2 True = Inr (2 * p)" by blast
  have "p = norm_sf (1 / 2)" using p(1) by (simp add: get_p_value_def py_div_def)
  with p show ?thesis by simp
qed

subsection \<open>The scan over the candidates\<close>












subsection \<open>Evaluations on real standard errors\<close>

lemma py_div_int_value:
  "0 < n \<Longrightarrow> n < float_int_limit \<Longrightarrow> py_div_int a n = Inr (a / of_int n)"
  by (simp add: py_div_int_def py_float_def py_div_def)

lemma get_p_value_value:
  "sd \<noteq> 0 \<Longrightarrow> get_p_value sf m sd ts = Inr (if ts then sf \<bar>m / sd\<bar> * 2 else sf \<bar>m / sd\<bar>)"
  by (simp add: get_p_value_def py_div_def Let_def)

lemma result_real_path:
  fixes p_A e :: real
  assumes n: "0 < n" "n < float_int_limit"
    and nB: "nB = (case nobs_B of None \<Rightarrow> n | Some b \<Rightarrow> b)" "0 < nB" "nB < float_int_limit"
    and pA: "0 \<le> p_A" "p_A \<le> 1" and pB: "0 \<le> p_A + e" "p_A + e \<le> 1"
    and nz: "0 < p_A \<and> p_A < 1 \<or> 0 < p_A + e \<and> p_A + e < 1"
    and sA: "sA = sqrt (p_A * (1 - p_A) / of_int n)"
    and sB: "sB = sqrt ((p_A + e) * (1 - (p_A + e)) / of_int nB)"
    and pv: "pv = (if ts then sf \<bar>(p_A + e - p_A) / sqrt (sA\<^sup>2 + sB\<^sup>2)\<bar> * 2
                   else sf \<bar>(p_A + e - p_A) / sqrt (sA\<^sup>2 + sB\<^sup>2)\<bar>)"
    and pw: "pw = get_power sf isf p_A (p_A + e) sA sB ts (if ts then sg / 2 else sg)"
  shows "get_p_val_and_power sf isf cx n p_A e nobs_B ts sg mp
           = Inr (Fin pv, Real64 pw, np_ge pw mp \<and> pv \<le> sg)"
proof -
  have d1: "py_div_int (p_A * (1 - p_A)) n = Inr (p_A * (1 - p_A) / of_int n)"
    by (rule py_div_int_value[OF n])
  have d2: "py_div_int ((p_A + e) * (1 - (p_A + e))) nB
            = Inr ((p_A + e) * (1 - (p_A + e)) / of_int nB)"
    by (rule py_div_int_value[OF nB(2,3)])
  have rn: "(0::real) < of_int n" and rnB: "(0::real) < of_int nB" using n(1) nB(2) by simp_all
  have v1: "0 \<le> p_A * (1 - p_A) / of_int n" using pA rn by simp
  have v2: "0 \<le> (p_A + e) * (1 - (p_A + e)) / of_int nB" using pB rnB by simp
  have real: "\<not> (p_A * (1 - p_A) / of_int n < 0 \<or> (p_A + e) * (1 - (p_A + e)) / of_int nB < 0)"
    using v1 v2 by linarith
  have "0 < p_A * (1 - p_A) / of_int n \<or> 0 < (p_A + e) * (1 - (p_A + e)) / of_int nB"
    using nz rn rnB by auto
  then have "0 < sA \<or> 0 < sB" unfolding sA sB by (simp only: real_sqrt_gt_0_iff)
  moreover have "0 \<le> sA" "0 \<le> sB" unfolding sA sB using v1 v2 by (simp_all only: real_sqrt_ge_0_iff)
  ultimately have "0 < sA\<^sup>2 + sB\<^sup>2"
    by (metis add_nonneg_pos add_pos_nonneg zero_le_power2 zero_less_power)
  then have "0 < sqrt (sA\<^sup>2 + sB\<^sup>2)" by (simp only: real_sqrt_gt_0_iff)
  then have sd_ne: "sqrt (sA\<^sup>2 + sB\<^sup>2) \<noteq> 0" by linarith
  have v: "get_p_value sf (p_A + e - p_A) (sqrt (sA\<^sup>2 + sB\<^sup>2)) ts = Inr pv"
    unfolding pv by (rule get_p_value_value[OF sd_ne])
  show ?thesis
    unfolding get_p_val_and_power_def Let_def nB(1)[symmetric] d1 d2 bind_res_Inr
      if_not_P[OF real] sA[symmetric] sB[symmetric] v pw[symmetric]
    by (simp only: prod.case np_le.simps number_ge.simps)
qed


lemma get_power_second_branch:
  assumes "e \<le> 0" "isf sg = Fin z" "sA \<noteq> 0"
  shows "get_power sf isf p_A (p_A + e) sA sB True sg = Fin (sf ((p_A + e + sB * z - p_A) / sA))"
  using assms by (auto simp: get_power_def Let_def)


lemma power_second_branch:
  fixes p_A e :: real
  assumes n: "0 < n" "n < float_int_limit"
    and nB: "nB = (case nobs_B of None \<Rightarrow> n | Some b \<Rightarrow> b)" "0 < nB" "nB < float_int_limit"
    and pA: "0 < p_A" "p_A < 1" and pB: "0 \<le> p_A + e" "p_A + e \<le> 1"
    and br: "e \<le> 0"
    and z: "isf (if True then sg / 2 else sg) = Fin z"
  shows "power_of (get_p_val_and_power sf isf cx n p_A e nobs_B True sg mp) =
         Some (Real64 (Fin (sf ((p_A + e + sqrt ((p_A + e) * (1 - (p_A + e)) / of_int nB) * z - p_A)
                   / sqrt (p_A * (1 - p_A) / of_int n)))))"
proof -
  have "0 < p_A * (1 - p_A) / of_int n" using pA n(1) by simp
  then have "0 < sqrt (p_A * (1 - p_A) / of_int n)" by (simp only: real_sqrt_gt_0_iff)
  then have ne: "sqrt (p_A * (1 - p_A) / of_int n) \<noteq> 0" by linarith
  have pA': "0 \<le> p_A" "p_A \<le> 1" using pA by simp_all
  have nz: "0 < p_A \<and> p_A < 1 \<or> 0 < p_A + e \<and> p_A + e < 1" using pA by simp
  show ?thesis
    unfolding result_real_path[OF n nB pA' pB nz refl refl refl refl, where sf = sf and isf = isf
        and cx = cx and ts = True and sg = sg and mp = mp]
      power_of_def sum.case fst_conv snd_conv get_power_second_branch[where isf = isf and sg = "if True then sg / 2 else sg", OF br z ne] ..
qed



subsection \<open>The standard normal survival function\<close>

lemma gauss_terms_sums:
  fixes t :: real
  shows "summable (\<lambda>k. (- 1) ^ k * t ^ (2 * k + 1) / (fact k * real (2 * k + 1)))"
proof (rule summable_comparison_test[OF _ summable_mult[OF summable_norm_exp[of "t\<^sup>2"], of "\<bar>t\<bar>"]], intro exI allI impI)
  fix k :: nat
  have "norm ((- 1) ^ k * t ^ (2 * k + 1) / (fact k * real (2 * k + 1)))
        = \<bar>t\<bar> * (t\<^sup>2) ^ k / (fact k * real (2 * k + 1))"
    by (simp add: abs_mult power_abs power_mult power_even_abs)
  also have "\<dots> \<le> \<bar>t\<bar> * (t\<^sup>2) ^ k / fact k"
  proof -
    have "fact k * 1 \<le> fact k * real (2 * k + 1)"
      by (intro mult_left_mono) simp_all
    then have "(fact k :: real) \<le> fact k * real (2 * k + 1)" by simp
    moreover have "0 \<le> \<bar>t\<bar> * (t\<^sup>2) ^ k" by simp
    ultimately show ?thesis by (intro divide_left_mono) simp_all
  qed
  also have "\<dots> = \<bar>t\<bar> * norm ((t\<^sup>2) ^ k /\<^sub>R fact k)"
    by (simp add: divide_inverse mult.commute)
  finally show "norm ((- 1) ^ k * t ^ (2 * k + 1) / (fact k * real (2 * k + 1)))
        \<le> \<bar>t\<bar> * norm ((t\<^sup>2) ^ k /\<^sub>R fact k)" .
qed

lemma gauss_coeff_term:
  "gauss_coeff n * t ^ n =
   (if even n then 0
    else (\<lambda>k. (- 1) ^ k * t ^ (2 * k + 1) / (fact k * real (2 * k + 1))) ((n - 1) div 2))"
proof (cases "even n")
  case True
  then show ?thesis by (simp add: gauss_coeff_def)
next
  case False
  then obtain k where k: "n = 2 * k + 1" by (auto elim: oddE)
  then show ?thesis by (simp add: gauss_coeff_def)
qed

lemma gauss_summable: "summable (\<lambda>n. gauss_coeff n * t ^ n)"
proof -
  let ?g = "\<lambda>k. (- 1) ^ k * t ^ (2 * k + 1) / (fact k * real (2 * k + 1))"
  have "?g sums suminf ?g" using gauss_terms_sums by (rule summable_sums)
  then have "(\<lambda>n. if even n then 0 else ?g ((n - 1) div 2)) sums suminf ?g"
    by (rule sums_if')
  then show ?thesis unfolding gauss_coeff_term[symmetric] by (rule sums_summable)
qed

lemma diffs_gauss_coeff:
  "diffs gauss_coeff n = (if even n then (- 1) ^ (n div 2) / fact (n div 2) else 0)"
proof (cases "even n")
  case True
  then obtain k where "n = 2 * k" by (auto elim: evenE)
  then show ?thesis by (simp add: diffs_def gauss_coeff_def)
next
  case False
  then show ?thesis by (simp add: diffs_def gauss_coeff_def)
qed

lemma diffs_gauss_sum: "(\<Sum>n. diffs gauss_coeff n * t ^ n) = exp (- (t\<^sup>2))"
proof -
  let ?f = "\<lambda>k. (- (t\<^sup>2)) ^ k /\<^sub>R fact k"
  have f: "?f sums exp (- (t\<^sup>2))" by (rule exp_converges)
  have z: "(\<lambda>k::nat. 0::real) sums 0" by (rule sums_zero)
  have "(\<lambda>n. if even n then ?f (n div 2) else (\<lambda>k. 0) ((n - 1) div 2)) sums (0 + exp (- (t\<^sup>2)))"
    by (rule sums_if[OF z f])
  moreover have "diffs gauss_coeff n * t ^ n = (if even n then ?f (n div 2) else 0)" for n
  proof (cases "even n")
    case True
    then obtain k where k: "n = 2 * k" by (auto elim: evenE)
    have "(- (t\<^sup>2)) ^ k = (- 1) ^ k * t ^ (2 * k)"
      by (simp add: power_mult power_minus[of "t\<^sup>2"])
    then show ?thesis using True k
      by (simp add: diffs_gauss_coeff divide_inverse mult_ac)
  next
    case False
    then show ?thesis by (simp add: diffs_gauss_coeff)
  qed
  ultimately have "(\<lambda>n. diffs gauss_coeff n * t ^ n) sums exp (- (t\<^sup>2))" by simp
  then show ?thesis by (rule sums_unique[symmetric])
qed

lemma DERIV_gauss_int: "(gauss_int has_field_derivative exp (- (t\<^sup>2))) (at t)"
proof -
  have "((\<lambda>x. \<Sum>n. gauss_coeff n * x ^ n) has_field_derivative (\<Sum>n. diffs gauss_coeff n * t ^ n)) (at t)"
    by (rule termdiffs_strong_converges_everywhere) (rule gauss_summable)
  then show ?thesis
    unfolding diffs_gauss_sum gauss_int_def[abs_def] .
qed

lemma gauss_int_0 [simp]: "gauss_int 0 = 0"
proof -
  have "(\<lambda>n. gauss_coeff n * 0 ^ n) = (\<lambda>n. 0)"
    by (rule ext) (simp add: gauss_coeff_def power_0_left)
  then show ?thesis by (simp add: gauss_int_def)
qed

lemma DERIV_norm_sf:
  "(norm_sf has_field_derivative - (exp (- ((x / sqrt 2)\<^sup>2)) / (sqrt 2 * sqrt pi))) (at x)"
proof -
  have a: "((\<lambda>x. x / sqrt 2) has_real_derivative 1 / sqrt 2) (at x)"
    by (rule DERIV_cdivide[OF DERIV_ident])
  have b: "((\<lambda>x. gauss_int (x / sqrt 2)) has_real_derivative
             exp (- ((x / sqrt 2)\<^sup>2)) * (1 / sqrt 2)) (at x)"
    by (rule DERIV_chain2[OF DERIV_gauss_int a])
  have c: "((\<lambda>x. gauss_int (x / sqrt 2) / sqrt pi) has_real_derivative
             exp (- ((x / sqrt 2)\<^sup>2)) * (1 / sqrt 2) / sqrt pi) (at x)"
    by (rule DERIV_cdivide[OF b])
  have "((\<lambda>x. 1 / 2 - gauss_int (x / sqrt 2) / sqrt pi) has_real_derivative
          0 - exp (- ((x / sqrt 2)\<^sup>2)) * (1 / sqrt 2) / sqrt pi) (at x)"
    by (rule DERIV_diff[OF DERIV_const c])
  then show ?thesis by (simp add: norm_sf_def[abs_def])
qed

lemma norm_sf_strict_antimono:
  assumes "x < y"
  shows "norm_sf y < norm_sf x"
proof (rule DERIV_neg_imp_decreasing[OF assms])
  fix t :: real
  have "0 < exp (- ((t / sqrt 2)\<^sup>2)) / (sqrt 2 * sqrt pi)" by simp
  then have "- (exp (- ((t / sqrt 2)\<^sup>2)) / (sqrt 2 * sqrt pi)) < 0" by linarith
  with DERIV_norm_sf[of t]
  show "\<exists>d. (norm_sf has_real_derivative d) (at t) \<and> d < 0" by blast
qed


lemma norm_sf_inj: "norm_sf x = norm_sf y \<Longrightarrow> x = y"
  using norm_sf_strict_antimono[of x y] norm_sf_strict_antimono[of y x]
  by (cases x y rule: linorder_cases) auto

lemma norm_sf_0: "norm_sf 0 = 1 / 2"
  by (simp add: norm_sf_def)

lemma norm_isf_norm_sf: "norm_isf (norm_sf x) = x"
  unfolding norm_isf_def by (rule the_equality) (auto dest: norm_sf_inj)

lemma norm_isf_half: "norm_isf (1 / 2) = 0"
  using norm_isf_norm_sf[of 0] by (simp add: norm_sf_0)


lemma gauss_int_le: "0 \<le> t \<Longrightarrow> gauss_int t \<le> t"
proof -
  assume t: "0 \<le> t"
  have "(\<lambda>s. s - gauss_int s) 0 \<le> (\<lambda>s. s - gauss_int s) t"
  proof (rule DERIV_nonneg_imp_nondecreasing[OF t])
    fix x :: real
    have "((\<lambda>s. s - gauss_int s) has_real_derivative (1 - exp (- (x\<^sup>2)))) (at x)"
      by (rule derivative_intros DERIV_gauss_int | simp)+
    moreover have "0 \<le> 1 - exp (- (x\<^sup>2))" by simp
    ultimately show "\<exists>y. ((\<lambda>s. s - gauss_int s) has_real_derivative y) (at x) \<and> 0 \<le> y"
      by blast
  qed
  then show ?thesis by simp
qed








lemma sqrt_rat: "0 \<le> r \<Longrightarrow> r * r = x \<Longrightarrow> sqrt x = (r::real)"
  by (rule real_sqrt_unique) (simp_all add: power2_eq_square)


lemma small_below_float_int_limit: "n \<le> 2 ^ 1000 \<Longrightarrow> n < float_int_limit"
proof -
  have "(2::int) ^ 1024 = 2 ^ 54 * 2 ^ 970" by (simp only: power_add[symmetric]) simp
  moreover have "(2::int) ^ 1000 = 2 ^ 30 * 2 ^ 970" by (simp only: power_add[symmetric]) simp
  moreover have "(0::int) < 2 ^ 970" by simp
  ultimately have "(2::int) ^ 1000 < 2 ^ 1024 - 2 ^ 970"
    by (simp add: algebra_simps)
  then show "n \<le> 2 ^ 1000 \<Longrightarrow> n < float_int_limit" by (simp add: float_int_limit_def)
qed

subsection \<open>The first qualifying sample size\<close>





subsection \<open>Power as a function of the effect\<close>












text \<open>
  On the other branch (a two-sided test with a non-positive effect) the power grows as the
  effect becomes more negative, so it is not non-decreasing in the effect there either.
\<close>

lemma power_two_sided_negative_effects:
  "power_of (get_p_val_and_power norm_sf (\<lambda>q. Fin (norm_isf q)) cx 100 (1 / 2) (- (1 / 5)) None True
               1 (4 / 5))
     = Some (Real64 (Fin (norm_sf (- 4))))
   \<and> power_of (get_p_val_and_power norm_sf (\<lambda>q. Fin (norm_isf q)) cx 100 (1 / 2) (- (1 / 10)) None True
               1 (4 / 5))
     = Some (Real64 (Fin (norm_sf (- 2))))
   \<and> norm_sf (- 2) < norm_sf (- 4)"
proof (intro conjI)
  let ?isf = "\<lambda>q. Fin (norm_isf q)"
  have lim: "(100::int) < float_int_limit" by (rule small_below_float_int_limit) simp
  have zeq: "?isf (if True then 1 / 2 else 1) = Fin 0" by (simp add: norm_isf_half)
  have a: "sqrt (1 / 2 * (1 - 1 / 2) / of_int 100) = (1 / 20 :: real)" by (rule sqrt_rat) simp_all
  have "power_of (get_p_val_and_power norm_sf ?isf cx 100 (1 / 2) (- (1 / 5)) None True 1 (4 / 5))
        = Some (Real64 (Fin (norm_sf ((1 / 2 + - (1 / 5)
                   + sqrt ((1 / 2 + - (1 / 5)) * (1 - (1 / 2 + - (1 / 5))) / of_int 100) * 0 - 1 / 2)
                   / sqrt (1 / 2 * (1 - 1 / 2) / of_int 100)))))"
    by (rule power_second_branch[where isf = ?isf and sg = 1 and nobs_B = None,
          OF _ lim _ _ lim _ _ _ _ _ zeq]) simp_all
  then show "power_of (get_p_val_and_power norm_sf ?isf cx 100 (1 / 2) (- (1 / 5)) None True 1 (4 / 5))
     = Some (Real64 (Fin (norm_sf (- 4))))"
    unfolding a by simp
  have "power_of (get_p_val_and_power norm_sf ?isf cx 100 (1 / 2) (- (1 / 10)) None True 1 (4 / 5))
        = Some (Real64 (Fin (norm_sf ((1 / 2 + - (1 / 10)
                   + sqrt ((1 / 2 + - (1 / 10)) * (1 - (1 / 2 + - (1 / 10))) / of_int 100) * 0 - 1 / 2)
                   / sqrt (1 / 2 * (1 - 1 / 2) / of_int 100)))))"
    by (rule power_second_branch[where isf = ?isf and sg = 1 and nobs_B = None,
          OF _ lim _ _ lim _ _ _ _ _ zeq]) simp_all
  then show "power_of (get_p_val_and_power norm_sf ?isf cx 100 (1 / 2) (- (1 / 10)) None True 1 (4 / 5))
     = Some (Real64 (Fin (norm_sf (- 2))))"
    unfolding a by simp
  show "norm_sf (- 2) < norm_sf (- 4)" by (rule norm_sf_strict_antimono) simp
qed

text \<open>
  Where \<open>p_A + e\<close> is 0 or 1 the standard error of group B is zero. The division does not
  raise: the power is 0, 1 or NaN according to the sign of the numerator.
\<close>

lemma power_at_degenerate_proportion:
  fixes p_A e :: real
  assumes n: "0 < n" "n < float_int_limit"
    and nB: "nB = (case nobs_B of None \<Rightarrow> n | Some b \<Rightarrow> b)" "0 < nB" "nB < float_int_limit"
    and pA: "0 < p_A" "p_A < 1" and pB: "p_A + e = 0 \<or> p_A + e = 1"
    and br: "0 < e \<or> \<not> ts"
    and z: "isf (if ts then sg / 2 else sg) = Fin z"
  shows "power_of (get_p_val_and_power sf isf cx n p_A e nobs_B ts sg mp) =
         Some (Real64 (let d = p_A + sqrt (p_A * (1 - p_A) / of_int n) * z
                       in if d = p_A + e then NaN else if p_A + e < d then Fin 0 else Fin 1))"
proof -
  have v: "(p_A + e) * (1 - (p_A + e)) = 0" using pB by auto
  have sB: "sqrt ((p_A + e) * (1 - (p_A + e)) / of_int nB) = 0" unfolding v by simp
  have pA': "0 \<le> p_A" "p_A \<le> 1" using pA by simp_all
  have pB': "0 \<le> p_A + e" "p_A + e \<le> 1" using pB by auto
  have nz: "0 < p_A \<and> p_A < 1 \<or> 0 < p_A + e \<and> p_A + e < 1" using pA by simp
  have gp: "get_power sf isf p_A (p_A + e) sA 0 ts (if ts then sg / 2 else sg)
            = (let d = p_A + sA * z
               in if d = p_A + e then NaN else if p_A + e < d then Fin 0 else Fin 1)" for sA
    using br z by (auto simp: get_power_def Let_def)
  show ?thesis
    unfolding result_real_path[OF n nB pA' pB' nz refl refl refl refl, where sf = sf and isf = isf
        and cx = cx and ts = ts and sg = sg and mp = mp]
      power_of_def sum.case fst_conv snd_conv sB gp ..
qed

section \<open>Properties of the stratified sampling\<close>

subsection \<open>Shares of a stratum\<close>

lemma share_bounds:
  fixes a b k u s :: nat
  assumes k: "1 \<le> k" and lo: "a * k \<le> u" and hi: "u \<le> b * k"
    and s1: "u div k \<le> s" and s2: "s \<le> (u + k - 1) div k"
  shows "a \<le> s" "s \<le> b" "a * (k - 1) \<le> u - s" "u - s \<le> b * (k - 1)" "s \<le> u"
proof -
  have kpos: "0 < k" using k by simp
  have "a \<le> u div k" using lo kpos by (simp add: less_eq_div_iff_mult_less_eq)
  then show as: "a \<le> s" using s1 by simp
  have "u + k - 1 < (b + 1) * k" using hi kpos by simp
  then have "(u + k - 1) div k < b + 1" using kpos by (simp add: div_less_iff_less_mult)
  then show sb: "s \<le> b" using s2 by simp
  have sk: "s * k \<le> u + k - 1"
  proof -
    have "s * k \<le> ((u + k - 1) div k) * k" using s2 by (rule mult_le_mono1)
    also have "\<dots> \<le> u + k - 1" by simp
    finally show ?thesis .
  qed
  have us: "u < (s + 1) * k"
  proof -
    have "u < k + (u div k) * k" using kpos by (rule dividend_less_div_times)
    also have "\<dots> = (u div k + 1) * k" by simp
    finally have "u < (u div k + 1) * k" .
    moreover have "(u div k + 1) * k \<le> (s + 1) * k" using s1 by (intro mult_le_mono1) simp
    ultimately show ?thesis by (rule less_le_trans)
  qed
  obtain k' where k': "k = Suc k'" using kpos by (cases k) auto
  show su: "s \<le> u"
  proof (cases "s = 0")
    case True then show ?thesis by simp
  next
    case False
    then obtain s' where s': "s = Suc s'" by (cases s) auto
    have "s * k \<le> u + k'" using sk k' by simp
    moreover have "s * k = s + s * k'" by (simp add: k')
    moreover have "k' \<le> s * k'" using False by simp
    ultimately show ?thesis by linarith
  qed
  show "a * (k - 1) \<le> u - s"
  proof (cases "s = a")
    case True
    have "a * k = a + a * k'" by (simp add: k')
    then show ?thesis using lo True k' by simp
  next
    case False
    then have "a + 1 \<le> s" using as by simp
    then have "(a + 1) * k' \<le> s * k'" by (rule mult_le_mono1)
    then have "a * k' + k' \<le> s * k'" by (simp add: algebra_simps)
    moreover have "s + s * k' \<le> u + k'" using sk k' by (simp add: algebra_simps)
    ultimately have "s + a * k' \<le> u" by linarith
    then show ?thesis using k' by simp
  qed
  show "u - s \<le> b * (k - 1)"
  proof (cases "s = b")
    case True
    have "b * k = b + b * k'" by (simp add: k')
    then show ?thesis using hi True k' by simp
  next
    case False
    then have "s + 1 \<le> b" using sb by simp
    then have "(s + 1) * k' \<le> b * k'" by (rule mult_le_mono1)
    moreover have "u < (s + 1) + (s + 1) * k'" using us k' by (simp add: algebra_simps)
    ultimately have "u \<le> s + b * k'" by linarith
    then show ?thesis using k' by simp
  qed
qed

lemma share_init:
  fixes m n :: nat
  assumes "1 \<le> n"
  shows "(m div n) * n \<le> m" "m \<le> ((m + n - 1) div n) * n"
proof -
  show "(m div n) * n \<le> m" by simp
  have npos: "0 < n" using assms by simp
  have "m + n - 1 < n + ((m + n - 1) div n) * n" using npos by (rule dividend_less_div_times)
  then show "m \<le> ((m + n - 1) div n) * n" using npos by linarith
qed

subsection \<open>One round of sampling\<close>

lemma ungrouped_rows_set: "set (ungrouped_rows g) = {r. r < length g \<and> g ! r = PyNone}"
  by (auto simp: ungrouped_rows_def)

lemma ungrouped_rows_distinct: "distinct (ungrouped_rows g)"
  by (simp add: ungrouped_rows_def)

lemma stratum_candidates:
  "set (filter (\<lambda>r. ks ! r = key) (ungrouped_rows g)) = stratum_rows ks g key PyNone"
  "distinct (filter (\<lambda>r. ks ! r = key) (ungrouped_rows g))"
  "length (filter (\<lambda>r. ks ! r = key) (ungrouped_rows g)) = card (stratum_rows ks g key PyNone)"
proof -
  show s: "set (filter (\<lambda>r. ks ! r = key) (ungrouped_rows g)) = stratum_rows ks g key PyNone"
    by (auto simp: ungrouped_rows_set stratum_rows_def)
  show d: "distinct (filter (\<lambda>r. ks ! r = key) (ungrouped_rows g))"
    by (simp add: ungrouped_rows_distinct)
  show "length (filter (\<lambda>r. ks ! r = key) (ungrouped_rows g)) = card (stratum_rows ks g key PyNone)"
    using distinct_card[OF d] s by simp
qed

lemma stratum_rows_finite [simp]: "finite (stratum_rows ks g key v)"
  by (simp add: stratum_rows_def)

lemma length_sample_round [simp]: "length (sample_round pd ks n i g) = length g"
  by (simp add: sample_round_def Let_def)

lemma sample_round_effect:
  assumes ok: "sample_ok pd" and k: "1 \<le> k" "k = nat (n - int i)"
  shows "\<exists>C. C \<subseteq> stratum_rows ks g key PyNone
           \<and> card (stratum_rows ks g key PyNone) div k \<le> card C
           \<and> card C \<le> (card (stratum_rows ks g key PyNone) + k - 1) div k
           \<and> stratum_rows ks (sample_round pd ks n i g) key PyNone
               = stratum_rows ks g key PyNone - C
           \<and> stratum_rows ks (sample_round pd ks n i g) key (PyInt (int i))
               = stratum_rows ks g key (PyInt (int i)) \<union> C
           \<and> (\<forall>v. v \<noteq> PyNone \<and> v \<noteq> PyInt (int i) \<longrightarrow>
                  stratum_rows ks (sample_round pd ks n i g) key v = stratum_rows ks g key v)"
proof -
  define cand where "cand = (\<lambda>key. filter (\<lambda>r. ks ! r = key) (ungrouped_rows g))"
  define picked where "picked = (\<lambda>key. set (sample pd i key (cand key) k))"
  define strata where "strata = remdups (map (\<lambda>r. ks ! r) (ungrouped_rows g))"
  define idx where "idx = concat (map (\<lambda>key. sample pd i key (cand key) k) strata)"
  have spec: "distinct (sample pd i key (cand key) k)"
    "set (sample pd i key (cand key) k) \<subseteq> set (cand key)"
    "length (cand key) div k \<le> length (sample pd i key (cand key) k)"
    "length (sample pd i key (cand key) k) \<le> (length (cand key) + k - 1) div k" for key
  proof -
    have "distinct (cand key) \<and> 1 \<le> k"
      using k(1) by (simp add: cand_def stratum_candidates(2))
    then have "distinct (sample pd i key (cand key) k)
        \<and> set (sample pd i key (cand key) k) \<subseteq> set (cand key)
        \<and> length (cand key) div k \<le> length (sample pd i key (cand key) k)
        \<and> length (sample pd i key (cand key) k) \<le> (length (cand key) + k - 1) div k"
      using ok unfolding sample_ok_def by blast
    then show "distinct (sample pd i key (cand key) k)"
      "set (sample pd i key (cand key) k) \<subseteq> set (cand key)"
      "length (cand key) div k \<le> length (sample pd i key (cand key) k)"
      "length (sample pd i key (cand key) k) \<le> (length (cand key) + k - 1) div k"
      by blast+
  qed
  have picked_sub: "picked key \<subseteq> stratum_rows ks g key PyNone" for key
    using spec(2)[of key] unfolding picked_def cand_def stratum_candidates(1) .
  have card_picked: "card (picked key) = length (sample pd i key (cand key) k)" for key
    unfolding picked_def by (rule distinct_card[OF spec(1)])
  have len_cand: "length (cand key) = card (stratum_rows ks g key PyNone)" for key
    by (simp add: cand_def stratum_candidates(3))
  have set_idx: "set idx = (\<Union>key \<in> set strata. picked key)"
    by (simp add: idx_def picked_def)
  have in_idx: "r \<in> set idx \<longleftrightarrow> r \<in> picked (ks ! r)" for r
  proof
    assume "r \<in> set idx"
    then obtain key where key: "key \<in> set strata" "r \<in> picked key" using set_idx by blast
    then have "ks ! r = key" using picked_sub[of key] by (auto simp: stratum_rows_def)
    then show "r \<in> picked (ks ! r)" using key(2) by simp
  next
    assume a: "r \<in> picked (ks ! r)"
    then have "r \<in> stratum_rows ks g (ks ! r) PyNone" using picked_sub by blast
    then have "r \<in> set (ungrouped_rows g)" by (simp add: stratum_rows_def ungrouped_rows_set)
    then have "ks ! r \<in> set strata" by (simp add: strata_def)
    then show "r \<in> set idx" using a set_idx by blast
  qed
  have g': "sample_round pd ks n i g ! r = (if r \<in> picked (ks ! r) then PyInt (int i) else g ! r)"
    if "r < length g" for r
  proof -
    have "sample_round pd ks n i g
          = map (\<lambda>r. if r \<in> set idx then PyInt (int i) else g ! r) [0..<length g]"
      by (simp add: sample_round_def Let_def idx_def strata_def cand_def k(2))
    then show ?thesis using that in_idx by simp
  qed
  have none: "g ! r = PyNone" if "r \<in> picked key" for r key
    using picked_sub[of key] that by (auto simp: stratum_rows_def)
  have keyed: "ks ! r = key" if "r \<in> picked key" for r key
    using picked_sub[of key] that by (auto simp: stratum_rows_def)
  have bound: "r < length g" if "r \<in> picked key" for r key
    using picked_sub[of key] that by (auto simp: stratum_rows_def)
  have mem: "r \<in> stratum_rows ks (sample_round pd ks n i g) key v \<longleftrightarrow>
             r < length g \<and> ks ! r = key
             \<and> (if r \<in> picked key then PyInt (int i) = v else g ! r = v)" for r v
  proof (cases "r < length g \<and> ks ! r = key")
    case True
    then show ?thesis using g'[of r] by (simp add: stratum_rows_def)
  next
    case False
    then show ?thesis by (auto simp: stratum_rows_def)
  qed
  have mem0: "r \<in> stratum_rows ks g key v \<longleftrightarrow> r < length g \<and> ks ! r = key \<and> g ! r = v" for r v
    by (simp add: stratum_rows_def)
  have a: "stratum_rows ks (sample_round pd ks n i g) key PyNone
           = stratum_rows ks g key PyNone - picked key"
  proof (rule set_eqI)
    fix r
    show "r \<in> stratum_rows ks (sample_round pd ks n i g) key PyNone
          \<longleftrightarrow> r \<in> stratum_rows ks g key PyNone - picked key"
      unfolding Diff_iff mem mem0 by (cases "r \<in> picked key") simp_all
  qed
  have b: "stratum_rows ks (sample_round pd ks n i g) key (PyInt (int i))
           = stratum_rows ks g key (PyInt (int i)) \<union> picked key"
  proof (rule set_eqI)
    fix r
    show "r \<in> stratum_rows ks (sample_round pd ks n i g) key (PyInt (int i))
          \<longleftrightarrow> r \<in> stratum_rows ks g key (PyInt (int i)) \<union> picked key"
    proof (cases "r \<in> picked key")
      case True
      then show ?thesis unfolding Un_iff mem mem0 using keyed[OF True] bound[OF True] by simp
    next
      case False
      then show ?thesis unfolding Un_iff mem mem0 by simp
    qed
  qed
  have c: "stratum_rows ks (sample_round pd ks n i g) key v = stratum_rows ks g key v"
    if v: "v \<noteq> PyNone \<and> v \<noteq> PyInt (int i)" for v
  proof (rule set_eqI)
    fix r
    show "r \<in> stratum_rows ks (sample_round pd ks n i g) key v \<longleftrightarrow> r \<in> stratum_rows ks g key v"
    proof (cases "r \<in> picked key")
      case True
      then show ?thesis unfolding mem mem0 using none[OF True] v by auto
    next
      case False
      then show ?thesis unfolding mem mem0 by simp
    qed
  qed
  have c1: "card (stratum_rows ks g key PyNone) div k \<le> card (picked key)"
    using spec(3)[of key] unfolding card_picked len_cand .
  have c2: "card (picked key) \<le> (card (stratum_rows ks g key PyNone) + k - 1) div k"
    using spec(4)[of key] unfolding card_picked len_cand .
  show ?thesis
    by (rule exI[of _ "picked key"]) (use picked_sub[of key] c1 c2 a b c in blast)
qed

subsection \<open>The invariant of the rounds\<close>

lemma rounds_invariant:
  fixes n i N :: nat and ks :: "'v cell list list" and pd :: "'v pandas"
  assumes ok: "sample_ok pd" and n: "1 \<le> n" and i: "i \<le> n"
  defines "g0 \<equiv> replicate N PyNone"
  defines "g \<equiv> fold (sample_round pd ks (int n)) [0..<i] g0"
  defines "m \<equiv> \<lambda>key. card (stratum_rows ks g0 key PyNone)"
  shows "length g = N
       \<and> (\<forall>key. (m key div n) * (n - i) \<le> card (stratum_rows ks g key PyNone)
                \<and> card (stratum_rows ks g key PyNone) \<le> ((m key + n - 1) div n) * (n - i))
       \<and> (\<forall>key j. j < i \<longrightarrow>
              m key div n \<le> card (stratum_rows ks g key (PyInt (int j)))
              \<and> card (stratum_rows ks g key (PyInt (int j))) \<le> (m key + n - 1) div n)
       \<and> (\<forall>key v. v \<noteq> PyNone \<and> (\<forall>j < i. v \<noteq> PyInt (int j)) \<longrightarrow>
              stratum_rows ks g key v = {})"
  using i unfolding g_def
proof (induction i)
  case 0
  have "stratum_rows ks g0 key v = {}" if "v \<noteq> PyNone" for key v
    using that by (auto simp: stratum_rows_def g0_def)
  then show ?case
    using share_init[OF n] by (simp add: g0_def m_def)
next
  case (Suc i)
  define g1 where "g1 = fold (sample_round pd ks (int n)) [0..<i] g0"
  define k where "k = n - i"
  have k1: "1 \<le> k" and kn: "k = nat (int n - int i)" and k': "n - Suc i = k - 1"
    using Suc.prems by (simp_all add: k_def)
  have step: "fold (sample_round pd ks (int n)) [0..<Suc i] g0 = sample_round pd ks (int n) i g1"
    by (simp add: g1_def)
  have IH: "length g1 = N"
    "\<And>key. (m key div n) * k \<le> card (stratum_rows ks g1 key PyNone)"
    "\<And>key. card (stratum_rows ks g1 key PyNone) \<le> ((m key + n - 1) div n) * k"
    "\<And>key j. j < i \<Longrightarrow> m key div n \<le> card (stratum_rows ks g1 key (PyInt (int j)))"
    "\<And>key j. j < i \<Longrightarrow> card (stratum_rows ks g1 key (PyInt (int j))) \<le> (m key + n - 1) div n"
    "\<And>key v. v \<noteq> PyNone \<Longrightarrow> (\<forall>j < i. v \<noteq> PyInt (int j)) \<Longrightarrow> stratum_rows ks g1 key v = {}"
    using Suc.IH Suc.prems unfolding g1_def[symmetric] k_def[symmetric] by simp_all
  have per_key:
    "(m key div n) * (k - 1) \<le> card (stratum_rows ks (sample_round pd ks (int n) i g1) key PyNone)
     \<and> card (stratum_rows ks (sample_round pd ks (int n) i g1) key PyNone)
         \<le> ((m key + n - 1) div n) * (k - 1)
     \<and> m key div n \<le> card (stratum_rows ks (sample_round pd ks (int n) i g1) key (PyInt (int i)))
     \<and> card (stratum_rows ks (sample_round pd ks (int n) i g1) key (PyInt (int i)))
         \<le> (m key + n - 1) div n
     \<and> (\<forall>v. v \<noteq> PyNone \<and> v \<noteq> PyInt (int i) \<longrightarrow>
            stratum_rows ks (sample_round pd ks (int n) i g1) key v = stratum_rows ks g1 key v)"
    for key
  proof -
    obtain C where C: "C \<subseteq> stratum_rows ks g1 key PyNone"
      "card (stratum_rows ks g1 key PyNone) div k \<le> card C"
      "card C \<le> (card (stratum_rows ks g1 key PyNone) + k - 1) div k"
      "stratum_rows ks (sample_round pd ks (int n) i g1) key PyNone
         = stratum_rows ks g1 key PyNone - C"
      "stratum_rows ks (sample_round pd ks (int n) i g1) key (PyInt (int i))
         = stratum_rows ks g1 key (PyInt (int i)) \<union> C"
      "\<forall>v. v \<noteq> PyNone \<and> v \<noteq> PyInt (int i) \<longrightarrow>
          stratum_rows ks (sample_round pd ks (int n) i g1) key v = stratum_rows ks g1 key v"
      using sample_round_effect[OF ok k1 kn, of ks g1 key] by blast
    note sb = share_bounds[OF k1 IH(2)[of key] IH(3)[of key] C(2) C(3)]
    have fin: "finite C" using C(1) by (rule finite_subset) simp
    have cd: "card (stratum_rows ks g1 key PyNone - C) = card (stratum_rows ks g1 key PyNone) - card C"
      using C(1) by (simp add: card_Diff_subset fin)
    have empty: "stratum_rows ks g1 key (PyInt (int i)) = {}"
      by (rule IH(6)) simp_all
    show ?thesis
      unfolding C(4) C(5) cd empty using sb C(6) by simp
  qed
  have old: "stratum_rows ks (sample_round pd ks (int n) i g1) key (PyInt (int j))
             = stratum_rows ks g1 key (PyInt (int j))" if "j < i" for key j
    using per_key[of key] that by simp
  show ?case
    unfolding step k'
  proof (intro conjI allI impI)
    show "length (sample_round pd ks (int n) i g1) = N" using IH(1) by simp
  next
    fix key
    show "m key div n * (k - 1) \<le> card (stratum_rows ks (sample_round pd ks (int n) i g1) key PyNone)"
      using per_key[of key] by blast
    show "card (stratum_rows ks (sample_round pd ks (int n) i g1) key PyNone)
          \<le> (m key + n - 1) div n * (k - 1)"
      using per_key[of key] by blast
  next
    fix key j assume j: "j < Suc i"
    show "m key div n \<le> card (stratum_rows ks (sample_round pd ks (int n) i g1) key (PyInt (int j)))"
    proof (cases "j = i")
      case True then show ?thesis using per_key[of key] by blast
    next
      case False
      then have "j < i" using j by simp
      then show ?thesis using old[of j key] IH(4)[of j key] by simp
    qed
    show "card (stratum_rows ks (sample_round pd ks (int n) i g1) key (PyInt (int j)))
          \<le> (m key + n - 1) div n"
    proof (cases "j = i")
      case True then show ?thesis using per_key[of key] by blast
    next
      case False
      then have "j < i" using j by simp
      then show ?thesis using old[of j key] IH(5)[of j key] by simp
    qed
  next
    fix key and v :: "'v cell"
    assume v: "v \<noteq> PyNone \<and> (\<forall>j < Suc i. v \<noteq> PyInt (int j))"
    then have "v \<noteq> PyNone \<and> v \<noteq> PyInt (int i)" by simp
    then have "stratum_rows ks (sample_round pd ks (int n) i g1) key v = stratum_rows ks g1 key v"
      using per_key[of key] by blast
    also have "\<dots> = {}" using v by (intro IH(6)) simp_all
    finally show "stratum_rows ks (sample_round pd ks (int n) i g1) key v = {}" .
  qed
qed

subsection \<open>The stratification columns and the bucket check\<close>

lemma stratify_col_result:
  "stratify_col pd b df col = Inr df1 \<Longrightarrow>
   \<exists>vs. df1 = set_col df (col @ ''_stratify'') CHR ''O'' vs"
  by (auto simp: stratify_col_def set_col_def split: option.splits sum.splits if_splits)

lemma add_stratify_cols_nrows:
  "add_stratify_cols pd b df cs = (df', r) \<Longrightarrow> nrows df' = nrows df"
proof (induction cs arbitrary: df df' r)
  case Nil
  then show ?case by simp
next
  case (Cons c cs)
  show ?case
  proof (cases "stratify_col pd b df c")
    case (Inl err)
    then show ?thesis using Cons.prems by simp
  next
    case (Inr df1)
    then obtain vs where vs: "df1 = set_col df (c @ ''_stratify'') CHR ''O'' vs"
      using stratify_col_result by blast
    obtain df2 r2 where rec: "add_stratify_cols pd b df1 cs = (df2, r2)" by (cases "add_stratify_cols pd b df1 cs")
    have "df' = df2" using Cons.prems Inr rec by (auto split: sum.splits)
    then show ?thesis using Cons.IH[OF rec] vs by (simp add: set_col_def)
  qed
qed

lemma add_stratify_cols_names:
  "add_stratify_cols pd b df cs = (df', Inr ts) \<Longrightarrow> ts = map (\<lambda>c. c @ ''_stratify'') cs"
proof (induction cs arbitrary: df df' ts)
  case Nil
  then show ?case by simp
next
  case (Cons c cs)
  then show ?case
    by (auto split: sum.splits prod.splits)
qed

lemma add_stratify_cols_frame:
  "add_stratify_cols pd b df cs = (df', r) \<Longrightarrow>
   name \<notin> (\<lambda>c. c @ ''_stratify'') ` set cs \<Longrightarrow> columns df' name = columns df name"
proof (induction cs arbitrary: df df' r)
  case Nil
  then show ?case by simp
next
  case (Cons c cs)
  show ?case
  proof (cases "stratify_col pd b df c")
    case (Inl err)
    then show ?thesis using Cons.prems by simp
  next
    case (Inr df1)
    then obtain vs where vs: "df1 = set_col df (c @ ''_stratify'') CHR ''O'' vs"
      using stratify_col_result by blast
    obtain df2 r2 where rec: "add_stratify_cols pd b df1 cs = (df2, r2)" by (cases "add_stratify_cols pd b df1 cs")
    have d: "df' = df2" using Cons.prems(1) Inr rec by (auto split: sum.splits)
    have "name \<notin> (\<lambda>c. c @ ''_stratify'') ` set cs" "name \<noteq> c @ ''_stratify''"
      using Cons.prems(2) by auto
    then show ?thesis using Cons.IH[OF rec] vs d by (simp add: set_col_def)
  qed
qed

lemma add_stratify_cols_added:
  "add_stratify_cols pd b df cs = (df', Inr ts) \<Longrightarrow>
   c \<in> set cs \<Longrightarrow> c @ ''_stratify'' \<in> dom (columns df')"
proof (induction cs arbitrary: df df' ts)
  case Nil
  then show ?case by simp
next
  case (Cons a cs)
  obtain df1 where s: "stratify_col pd b df a = Inr df1"
    using Cons.prems(1) by (cases "stratify_col pd b df a") auto
  then obtain vs where vs: "df1 = set_col df (a @ ''_stratify'') CHR ''O'' vs"
    using stratify_col_result by blast
  obtain ts' where ts': "add_stratify_cols pd b df1 cs = (df', Inr ts')"
    using Cons.prems(1) s by (auto split: sum.splits prod.splits)
  show ?case
  proof (cases "c \<in> set cs")
    case True
    then show ?thesis using Cons.IH[OF ts'] by simp
  next
    case False
    then have ca: "c = a" using Cons.prems(2) by simp
    have "a @ ''_stratify'' \<notin> (\<lambda>c. c @ ''_stratify'') ` set cs" using False ca by auto
    then have "columns df' (a @ ''_stratify'') = columns df1 (a @ ''_stratify'')"
      using add_stratify_cols_frame[OF ts'] by blast
    then show ?thesis using vs ca by (simp add: dom_def set_col_def)
  qed
qed

lemma group_not_stratify: "''group'' \<noteq> c @ ''_stratify''"
proof
  assume "''group'' = c @ ''_stratify''"
  then have "length ''group'' = length (c @ ''_stratify'')" by (rule arg_cong)
  then show False by simp
qed

lemma count_list_stratum:
  "count_list ks key = card (stratum_rows ks (replicate (length ks) PyNone) key PyNone)"
proof -
  have s: "stratum_rows ks (replicate (length ks) PyNone) key PyNone = {i. i < length ks \<and> key = ks ! i}"
    by (auto simp: stratum_rows_def)
  show ?thesis
    unfolding s by (simp add: count_list_eq_length_filter length_filter_conv_card)
qed

lemma value_counts_Inr:
  assumes "value_counts pd df cols = Inr bc"
  shows "bc = map (\<lambda>key. (key, count_list (row_keys df cols) key)) (remdups (row_keys df cols))"
  using assms by (simp add: value_counts_def Let_def split: option.splits)

lemma value_counts_set:
  assumes "value_counts pd df cols = Inr bc"
  shows "set bc = (\<lambda>key. (key, count_list (row_keys df cols) key)) ` set (row_keys df cols)"
  unfolding value_counts_Inr[OF assms] by simp

lemma bucket_ok_iff:
  assumes "value_counts pd df cols = Inr bc"
  shows "bucket_ok bc n \<longleftrightarrow>
         row_keys df cols \<noteq> []
         \<and> (\<forall>key \<in> set (row_keys df cols). n \<le> int (count_list (row_keys df cols) key))"
proof -
  define ks where "ks = row_keys df cols"
  have bc: "bc = map (\<lambda>key. (key, count_list ks key)) (remdups ks)"
    unfolding ks_def by (rule value_counts_Inr[OF assms])
  have S: "snd ` set bc = (\<lambda>key. count_list ks key) ` set ks"
    unfolding bc by (simp add: image_image)
  have e: "bc = [] \<longleftrightarrow> ks = []" unfolding bc by simp
  have "bucket_ok bc n \<longleftrightarrow> ks \<noteq> [] \<and> (\<forall>key \<in> set ks. n \<le> int (count_list ks key))"
  proof (cases "ks = []")
    case True
    then show ?thesis using e by (simp add: bucket_ok_def)
  next
    case False
    let ?S = "snd ` set bc"
    have ne: "?S \<noteq> {}" "finite ?S" using False by (simp_all add: S)
    have "n \<le> int (Min ?S) \<longleftrightarrow> (\<forall>c \<in> ?S. n \<le> int c)"
    proof
      assume a: "n \<le> int (Min ?S)"
      show "\<forall>c \<in> ?S. n \<le> int c"
      proof
        fix c assume "c \<in> ?S"
        then have "Min ?S \<le> c" using ne by simp
        then show "n \<le> int c" using a by linarith
      qed
    next
      assume "\<forall>c \<in> ?S. n \<le> int c"
      moreover have "Min ?S \<in> ?S" using ne by (intro Min_in) simp_all
      ultimately show "n \<le> int (Min ?S)" by blast
    qed
    then have "n \<le> int (Min ?S) \<longleftrightarrow> (\<forall>key \<in> set ks. n \<le> int (count_list ks key))"
      unfolding S by simp
    then show ?thesis using False e by (simp add: bucket_ok_def)
  qed
  then show ?thesis unfolding ks_def .
qed

lemma length_row_keys [simp]: "length (row_keys df tcols) = nrows df"
  by (simp add: row_keys_def)

subsection \<open>The groups form a balanced partition\<close>

lemma assign_groups_complete:
  fixes ks :: "'v cell list list" and pd :: "'v pandas"
  assumes ok: "sample_ok pd" and n: "1 \<le> n_splits" and len: "length ks = N"
  defines "g \<equiv> assign_groups pd ks n_splits (replicate N PyNone)"
  shows "length g = N"
    and "PyNone \<notin> set g"
    and "\<forall>r < N. \<exists>j < nat n_splits. g ! r = PyInt (int j)"
    and "\<forall>key j. j < nat n_splits \<longrightarrow>
           count_list ks key div nat n_splits \<le> card (stratum_rows ks g key (PyInt (int j)))
           \<and> card (stratum_rows ks g key (PyInt (int j)))
               \<le> (count_list ks key + nat n_splits - 1) div nat n_splits"
proof -
  define n where "n = nat n_splits"
  have n1: "1 \<le> n" and nn: "int n = n_splits" using n by (simp_all add: n_def)
  have g: "g = fold (sample_round pd ks (int n)) [0..<n] (replicate N PyNone)"
    by (simp add: g_def assign_groups_def nn n_def)
  note inv = rounds_invariant[OF ok n1 order_refl, of ks N, folded g]
  note inv1 = inv[THEN conjunct1]
  note inv2 = inv[THEN conjunct2, THEN conjunct1, rule_format]
  note inv3 = inv[THEN conjunct2, THEN conjunct2, THEN conjunct1, rule_format]
  note inv4 = inv[THEN conjunct2, THEN conjunct2, THEN conjunct2, rule_format]
  have m: "card (stratum_rows ks (replicate N PyNone) key PyNone) = count_list ks key" for key
    unfolding len[symmetric] by (rule count_list_stratum[symmetric])
  show l: "length g = N" by (rule inv1)
  have none: "stratum_rows ks g key PyNone = {}" for key
  proof -
    have "card (stratum_rows ks g key PyNone) \<le> 0" using inv2[of key] by simp
    then show ?thesis by simp
  qed
  show "PyNone \<notin> set g"
  proof
    assume "PyNone \<in> set g"
    then obtain r where r: "r < length g" "g ! r = PyNone" by (auto simp: in_set_conv_nth)
    then have "r \<in> stratum_rows ks g (ks ! r) PyNone" by (simp add: stratum_rows_def)
    then show False using none by blast
  qed
  note other = inv[THEN conjunct2, THEN conjunct2, THEN conjunct2, THEN spec, THEN spec, THEN mp]
  show "\<forall>r < N. \<exists>j < nat n_splits. g ! r = PyInt (int j)"
  proof (intro allI impI)
    fix r assume r: "r < N"
    have mem: "r \<in> stratum_rows ks g (ks ! r) (g ! r)" using r l by (simp add: stratum_rows_def)
    have nn: "g ! r \<noteq> PyNone"
    proof
      assume "g ! r = PyNone"
      then have "r \<in> stratum_rows ks g (ks ! r) PyNone" using mem by simp
      then show False unfolding none by simp
    qed
    have "\<not> (\<forall>j < n. g ! r \<noteq> PyInt (int j))"
    proof
      assume a: "\<forall>j < n. g ! r \<noteq> PyInt (int j)"
      have "stratum_rows ks g (ks ! r) (g ! r) = {}"
        by (rule other) (rule conjI[OF nn a])
      then show False using mem by simp
    qed
    then obtain j where "j < n" "g ! r = PyInt (int j)" by blast
    then show "\<exists>j < nat n_splits. g ! r = PyInt (int j)" unfolding n_def by blast
  qed
  show "\<forall>key j. j < nat n_splits \<longrightarrow>
           count_list ks key div nat n_splits \<le> card (stratum_rows ks g key (PyInt (int j)))
           \<and> card (stratum_rows ks g key (PyInt (int j)))
               \<le> (count_list ks key + nat n_splits - 1) div nat n_splits"
  proof (intro allI impI)
    fix key j assume "j < nat n_splits"
    then have "j < n" by (simp add: n_def)
    from inv3[OF this, of key]
    show "count_list ks key div nat n_splits \<le> card (stratum_rows ks g key (PyInt (int j)))
           \<and> card (stratum_rows ks g key (PyInt (int j)))
               \<le> (count_list ks key + nat n_splits - 1) div nat n_splits"
      unfolding m n_def .
  qed
qed

text \<open>
  Claim C2, as amended. Suppose that \<^verbatim>\<open>sample(frac=1 / k)\<close> draws distinct rows of the group
  it is given, between \<open>\<lfloor>len / k\<rfloor>\<close> and \<open>\<lceil>len / k\<rceil>\<close> of them (it draws
  \<^verbatim>\<open>round(frac * len)\<close>), and that the call reaches and passes its two assertions on the
  input: the frame has no \<^verbatim>\<open>group\<close> column, the first loop completes,
  \<^verbatim>\<open>value_counts\<close> returns and every stratum has at least \<open>n_splits\<close> rows. For
  \<open>n_splits \<ge> 1\<close> the function returns a frame with as many rows as the input, in which
  every row has one label among \<open>0, \<dots>, n_splits - 1\<close>, every row belongs to a counted
  stratum, and in every stratum of \<open>c\<close> rows every group has between \<open>\<lfloor>c / n_splits\<rfloor>\<close> and
  \<open>\<lceil>c / n_splits\<rceil>\<close> rows and at least one. For \<open>n_splits < 1\<close> the second loop labels
  nothing and the last assertion fails.
\<close>

theorem proportional_stratified_sample_partition:
  fixes df :: "'v dataframe"
  assumes ok: "sample_ok pd"
    and no_group: "''group'' \<notin> dom (columns df)"
    and tr: "add_stratify_cols pd buckets df stratify_cols = (df1, Inr tcols)"
    and vc: "value_counts pd df1 tcols = Inr bucket_counts"
    and bk: "bucket_ok bucket_counts n_splits"
  shows "(1 \<le> n_splits \<longrightarrow>
           (\<exists>out g.
              proportional_stratified_sample pd df stratify_cols n_splits buckets = (df1, Inr out)
            \<and> nrows out = nrows df
            \<and> columns out ''group'' = Some \<lparr>kind = CHR ''O'', cells = g\<rparr>
            \<and> length g = nrows df
            \<and> (\<forall>r < nrows df. \<exists>j < nat n_splits. g ! r = PyInt (int j))
            \<and> (\<forall>r < nrows df. row_keys df1 tcols ! r \<in> fst ` set bucket_counts)
            \<and> (\<forall>(key, c) \<in> set bucket_counts. \<forall>j < nat n_splits.
                  c div nat n_splits
                    \<le> card (stratum_rows (row_keys df1 tcols) g key (PyInt (int j)))
                \<and> card (stratum_rows (row_keys df1 tcols) g key (PyInt (int j)))
                    \<le> (c + nat n_splits - 1) div nat n_splits
                \<and> 1 \<le> card (stratum_rows (row_keys df1 tcols) g key (PyInt (int j))))))
       \<and> (n_splits < 1 \<longrightarrow>
            proportional_stratified_sample pd df stratify_cols n_splits buckets
              = (df1, Inl AssertionError))"
proof (intro conjI impI)
  define ks where "ks = row_keys df1 tcols"
  have rows: "nrows df1 = nrows df" using add_stratify_cols_nrows[OF tr] .
  have len: "length ks = nrows df1" by (simp add: ks_def)
  have bki: "ks \<noteq> []" "\<forall>key \<in> set ks. n_splits \<le> int (count_list ks key)"
    using bk unfolding bucket_ok_iff[OF vc] ks_def by blast+
  have bcs: "set bucket_counts = (\<lambda>key. (key, count_list ks key)) ` set ks"
    unfolding ks_def by (rule value_counts_set[OF vc])
  {
    assume n: "1 \<le> n_splits"
    define g where "g = assign_groups pd ks n_splits (replicate (nrows df1) PyNone)"
    define out where "out = \<lparr>nrows = nrows df1,
        columns = ((columns df1)(''group'' \<mapsto> \<lparr>kind = CHR ''O'', cells = g\<rparr>)) |` (- set tcols)\<rparr>"
    have names: "tcols = map (\<lambda>c. c @ ''_stratify'') stratify_cols"
      using add_stratify_cols_names[OF tr] .
    note ag = assign_groups_complete[OF ok n len, folded g_def]
    have res: "proportional_stratified_sample pd df stratify_cols n_splits buckets = (df1, Inr out)"
      using no_group bk ag(2)
      by (simp add: proportional_stratified_sample_def tr vc Let_def ks_def[symmetric]
          g_def[symmetric] out_def)
    have gnt: "''group'' \<notin> set tcols" using names group_not_stratify by auto
    have gc: "columns out ''group'' = Some \<lparr>kind = CHR ''O'', cells = g\<rparr>"
      using gnt by (simp add: out_def restrict_map_def)
    have big: "1 \<le> count_list ks key div nat n_splits" if "key \<in> set ks" for key
    proof -
      have "n_splits \<le> int (count_list ks key)" using bki(2) that by blast
      then have "nat n_splits \<le> count_list ks key" by linarith
      moreover have "0 < nat n_splits" using n by simp
      ultimately show ?thesis by (simp add: Suc_le_eq div_greater_zero_iff)
    qed
    have bal: "\<forall>(key, c) \<in> set bucket_counts. \<forall>j < nat n_splits.
                 c div nat n_splits \<le> card (stratum_rows ks g key (PyInt (int j)))
                 \<and> card (stratum_rows ks g key (PyInt (int j)))
                   \<le> (c + nat n_splits - 1) div nat n_splits
                 \<and> 1 \<le> card (stratum_rows ks g key (PyInt (int j)))"
    proof (intro ballI, clarify)
      fix key c j assume kc: "(key, c) \<in> set bucket_counts" and j: "j < nat n_splits"
      from kc have k: "key \<in> set ks" and c: "c = count_list ks key" unfolding bcs by auto
      from ag(4) j have b: "count_list ks key div nat n_splits \<le> card (stratum_rows ks g key (PyInt (int j)))"
        "card (stratum_rows ks g key (PyInt (int j))) \<le> (count_list ks key + nat n_splits - 1) div nat n_splits"
        by blast+
      with big[OF k] show "c div nat n_splits \<le> card (stratum_rows ks g key (PyInt (int j)))
                 \<and> card (stratum_rows ks g key (PyInt (int j)))
                   \<le> (c + nat n_splits - 1) div nat n_splits
                 \<and> 1 \<le> card (stratum_rows ks g key (PyInt (int j)))"
        unfolding c by linarith
    qed
    have mem: "\<forall>r < nrows df. ks ! r \<in> fst ` set bucket_counts"
    proof (intro allI impI)
      fix r assume "r < nrows df"
      then have "ks ! r \<in> set ks" using len rows by simp
      then show "ks ! r \<in> fst ` set bucket_counts" unfolding bcs by (simp add: image_image)
    qed
    have "nrows out = nrows df" by (simp add: out_def rows)
    moreover have "length g = nrows df" using ag(1) rows by simp
    moreover have "\<forall>r < nrows df. \<exists>j < nat n_splits. g ! r = PyInt (int j)"
      using ag(3) rows by simp
    ultimately show "\<exists>out g.
              proportional_stratified_sample pd df stratify_cols n_splits buckets = (df1, Inr out)
            \<and> nrows out = nrows df
            \<and> columns out ''group'' = Some \<lparr>kind = CHR ''O'', cells = g\<rparr>
            \<and> length g = nrows df
            \<and> (\<forall>r < nrows df. \<exists>j < nat n_splits. g ! r = PyInt (int j))
            \<and> (\<forall>r < nrows df. row_keys df1 tcols ! r \<in> fst ` set bucket_counts)
            \<and> (\<forall>(key, c) \<in> set bucket_counts. \<forall>j < nat n_splits.
                  c div nat n_splits
                    \<le> card (stratum_rows (row_keys df1 tcols) g key (PyInt (int j)))
                \<and> card (stratum_rows (row_keys df1 tcols) g key (PyInt (int j)))
                    \<le> (c + nat n_splits - 1) div nat n_splits
                \<and> 1 \<le> card (stratum_rows (row_keys df1 tcols) g key (PyInt (int j))))"
      using res gc bal mem unfolding ks_def by blast
  }
  {
    assume n: "n_splits < 1"
    have "0 < nrows df1" using bki(1) len by (cases ks) auto
    then have "PyNone \<in> set (replicate (nrows df1) (PyNone :: 'v cell))" by simp
    moreover have "assign_groups pd ks n_splits (replicate (nrows df1) PyNone)
                   = replicate (nrows df1) PyNone"
      using n by (simp add: assign_groups_def)
    ultimately show "proportional_stratified_sample pd df stratify_cols n_splits buckets
              = (df1, Inl AssertionError)"
      using no_group bk
      by (simp add: proportional_stratified_sample_def tr vc Let_def ks_def[symmetric])
  }
qed

subsection \<open>Strata that are too small\<close>

lemma stratify_col_sample_free:
  "stratify_col (pd\<lparr>sample := f\<rparr>) b df col = stratify_col pd b df col"
  by (simp add: stratify_col_def split: option.splits sum.splits)

lemma add_stratify_cols_sample_free:
  "add_stratify_cols (pd\<lparr>sample := f\<rparr>) b df cs = add_stratify_cols pd b df cs"
  by (induction cs arbitrary: df) (simp_all add: stratify_col_sample_free split: sum.splits)

lemma value_counts_sample_free:
  "value_counts (pd\<lparr>sample := f\<rparr>) df cols = value_counts pd df cols"
  by (simp add: value_counts_def)

text \<open>
  Claim C6, as amended. When the first loop completes and some combination of values of
  the transformed columns occurs in fewer than \<open>n_splits\<close> rows, the call raises before
  any group is assigned: \<^verbatim>\<open>AssertionError\<close>, unless pandas refuses the transformed columns
  as group keys, in which case \<^verbatim>\<open>value_counts\<close> raises the exception of pandas before the
  assertion is evaluated. The caller's frame has no \<^verbatim>\<open>group\<close> column that it did not have
  before, and the outcome does not depend on the sampler, which is never consulted.
\<close>

theorem small_stratum_raises:
  fixes df :: "'v dataframe"
  assumes tr: "add_stratify_cols pd buckets df stratify_cols = (df1, Inr tcols)"
    and small: "\<exists>key \<in> set (row_keys df1 tcols).
                  int (count_list (row_keys df1 tcols) key) < n_splits"
  shows "proportional_stratified_sample pd df stratify_cols n_splits buckets
           = (if ''group'' \<in> dom (columns df) then (df, Inl AssertionError)
              else (df1, Inl (case group_keys_error pd tcols (nrows df1) of
                                None \<Rightarrow> AssertionError
                              | Some err \<Rightarrow> err)))
       \<and> columns df1 ''group'' = columns df ''group''
       \<and> (\<forall>f. proportional_stratified_sample (pd\<lparr>sample := f\<rparr>) df stratify_cols n_splits buckets
                = proportional_stratified_sample pd df stratify_cols n_splits buckets)"
proof -
  have nb: "\<not> bucket_ok bc n_splits" if "value_counts p df1 tcols = Inr bc"
    for p :: "'v pandas" and bc
    using small unfolding bucket_ok_iff[OF that] by (auto simp: not_le)
  have res: "proportional_stratified_sample p df stratify_cols n_splits buckets
           = (if ''group'' \<in> dom (columns df) then (df, Inl AssertionError)
              else (df1, Inl (case group_keys_error p tcols (nrows df1) of
                                None \<Rightarrow> AssertionError
                              | Some err \<Rightarrow> err)))"
    if t: "add_stratify_cols p buckets df stratify_cols = (df1, Inr tcols)" for p :: "'v pandas"
  proof (cases "value_counts p df1 tcols")
    case (Inl err)
    then have "group_keys_error p tcols (nrows df1) = Some err"
      by (simp add: value_counts_def Let_def split: option.splits)
    then show ?thesis using Inl t by (simp add: proportional_stratified_sample_def)
  next
    case (Inr bc)
    then have "group_keys_error p tcols (nrows df1) = None"
      by (simp add: value_counts_def Let_def split: option.splits)
    then show ?thesis using Inr t nb[OF Inr] by (simp add: proportional_stratified_sample_def)
  qed
  have "''group'' \<notin> (\<lambda>c. c @ ''_stratify'') ` set stratify_cols"
    using group_not_stratify by auto
  then have frame: "columns df1 ''group'' = columns df ''group''"
    by (rule add_stratify_cols_frame[OF tr])
  have "proportional_stratified_sample (pd\<lparr>sample := f\<rparr>) df stratify_cols n_splits buckets
        = proportional_stratified_sample pd df stratify_cols n_splits buckets" for f
    using res[of pd, OF tr] res[of "pd\<lparr>sample := f\<rparr>"] tr
    by (simp add: add_stratify_cols_sample_free)
  then show ?thesis using res[OF tr] frame by blast
qed

subsection \<open>The columns left on the caller's dataframe\<close>

lemma sample_returns:
  fixes df :: "'v dataframe"
  assumes "proportional_stratified_sample pd df stratify_cols n_splits buckets = (df', Inr out)"
  shows "''group'' \<notin> dom (columns df)
       \<and> (\<exists>tcols g. add_stratify_cols pd buckets df stratify_cols = (df', Inr tcols)
              \<and> columns out = ((columns df')(''group'' \<mapsto> \<lparr>kind = CHR ''O'', cells = g\<rparr>))
                                |` (- set tcols))"
proof (cases "''group'' \<in> dom (columns df)")
  case True
  then show ?thesis using assms by (simp add: proportional_stratified_sample_def)
next
  case ng: False
  obtain df1 r where add: "add_stratify_cols pd buckets df stratify_cols = (df1, r)"
    by (cases "add_stratify_cols pd buckets df stratify_cols")
  show ?thesis
  proof (cases r)
    case (Inl err)
    then show ?thesis using assms ng add by (simp add: proportional_stratified_sample_def)
  next
    case (Inr tcols)
    define ks where "ks = row_keys df1 tcols"
    define g where "g = assign_groups pd ks n_splits (replicate (nrows df1) PyNone)"
    define X where "X = \<lparr>nrows = nrows df1,
               columns = ((columns df1)(''group'' \<mapsto> \<lparr>kind = CHR ''O'', cells = g\<rparr>))
                         |` (- set tcols)\<rparr>"
    have unf: "proportional_stratified_sample pd df stratify_cols n_splits buckets =
      (case value_counts pd df1 tcols of
         Inl err \<Rightarrow> (df1, Inl err)
       | Inr bc \<Rightarrow>
           if \<not> bucket_ok bc n_splits then (df1, Inl AssertionError)
           else if PyNone \<in> set g then (df1, Inl AssertionError)
           else (df1, Inr X))"
      using ng add Inr unfolding X_def
      by (simp add: proportional_stratified_sample_def Let_def ks_def g_def split: sum.splits)
    have "(df', Inr out) = (df1, Inr X)"
      using assms unfolding unf by (simp split: if_splits sum.splits)
    then have e: "df' = df1" "out = X" by simp_all
    have "columns X = ((columns df1)(''group'' \<mapsto> \<lparr>kind = CHR ''O'', cells = g\<rparr>))
                         |` (- set tcols)"
      unfolding X_def by (simp only: dataframe.simps)
    then have "df' = df1" "columns out = ((columns df1)(''group'' \<mapsto> \<lparr>kind = CHR ''O'', cells = g\<rparr>))
                         |` (- set tcols)"
      using e by simp_all
    then show ?thesis using ng add Inr by blast
  qed
qed

text \<open>
  Claim C10. When the call returns, the caller's frame has a column \<^verbatim>\<open>col + "_stratify"\<close>
  for every stratify column, its other columns and its rows are unchanged, and it has no
  \<^verbatim>\<open>group\<close> column. The returned frame has the \<^verbatim>\<open>group\<close> column and none of the added
  columns, and its other columns are those of the input; a column of the returned frame
  whose name ends in \<^verbatim>\<open>_stratify\<close> is therefore a column the input had under that name, and
  not one the function adds.
\<close>

theorem caller_dataframe_keeps_stratify_columns:
  fixes df :: "'v dataframe"
  assumes "proportional_stratified_sample pd df stratify_cols n_splits buckets = (df', Inr out)"
  shows "(\<forall>c \<in> set stratify_cols. c @ ''_stratify'' \<in> dom (columns df'))
       \<and> (\<forall>name. name \<notin> (\<lambda>c. c @ ''_stratify'') ` set stratify_cols \<longrightarrow>
              columns df' name = columns df name)
       \<and> nrows df' = nrows df
       \<and> ''group'' \<notin> dom (columns df')
       \<and> ''group'' \<in> dom (columns out)
       \<and> (\<forall>c \<in> set stratify_cols. c @ ''_stratify'' \<notin> dom (columns out))
       \<and> (\<forall>name. name \<noteq> ''group'' \<and> name \<notin> (\<lambda>c. c @ ''_stratify'') ` set stratify_cols \<longrightarrow>
              columns out name = columns df name)
       \<and> (\<forall>name \<in> dom (columns out). suffix ''_stratify'' name \<longrightarrow>
              name \<in> dom (columns df) \<and> name \<notin> (\<lambda>c. c @ ''_stratify'') ` set stratify_cols)"
proof -
  obtain tcols g where ng: "''group'' \<notin> dom (columns df)"
    and tr: "add_stratify_cols pd buckets df stratify_cols = (df', Inr tcols)"
    and out: "columns out = ((columns df')(''group'' \<mapsto> \<lparr>kind = CHR ''O'', cells = g\<rparr>))
                                      |` (- set tcols)"
    using sample_returns[OF assms] by blast
  define df1 where "df1 = df'"
  have d: "df' = df1" by (simp add: df1_def)
  note tr = tr[unfolded d] and out = out[unfolded d]
  have names: "tcols = map (\<lambda>c. c @ ''_stratify'') stratify_cols"
    using add_stratify_cols_names[OF tr] .
  have set_t: "set tcols = (\<lambda>c. c @ ''_stratify'') ` set stratify_cols" by (simp add: names)
  have gnt: "''group'' \<notin> set tcols" unfolding set_t using group_not_stratify by auto
  have frame: "columns df1 name = columns df name" if "name \<notin> set tcols" for name
    using add_stratify_cols_frame[OF tr] that unfolding set_t by blast
  show ?thesis unfolding d
  proof (intro conjI ballI allI impI)
    fix c assume "c \<in> set stratify_cols"
    then show "c @ ''_stratify'' \<in> dom (columns df1)" by (rule add_stratify_cols_added[OF tr])
  next
    fix name assume "name \<notin> (\<lambda>c. c @ ''_stratify'') ` set stratify_cols"
    then show "columns df1 name = columns df name" using frame set_t by simp
  next
    show "nrows df1 = nrows df" by (rule add_stratify_cols_nrows[OF tr])
  next
    show "''group'' \<notin> dom (columns df1)" using frame[OF gnt] ng by (simp add: dom_def)
  next
    show "''group'' \<in> dom (columns out)" using gnt by (simp add: out restrict_map_def dom_def)
  next
    fix c assume "c \<in> set stratify_cols"
    then have "c @ ''_stratify'' \<in> set tcols" by (simp add: set_t)
    then show "c @ ''_stratify'' \<notin> dom (columns out)" by (simp add: out restrict_map_def dom_def)
  next
    fix name assume "name \<noteq> ''group'' \<and> name \<notin> (\<lambda>c. c @ ''_stratify'') ` set stratify_cols"
    then have "name \<noteq> ''group''" "name \<notin> set tcols" by (simp_all add: set_t)
    then show "columns out name = columns df name"
      using frame by (simp add: out restrict_map_def)
  next
    fix name assume n: "name \<in> dom (columns out)" and s: "suffix ''_stratify'' name"
    have a: "name \<notin> set tcols" using n by (auto simp: out restrict_map_def dom_def split: if_splits)
    have b: "name \<noteq> ''group''" using s by (auto simp: suffix_def)
    have "columns out name = columns df name"
      using a b frame by (simp add: out restrict_map_def)
    then show "name \<in> dom (columns df)" using n by (simp add: dom_def)
    show "name \<notin> (\<lambda>c. c @ ''_stratify'') ` set stratify_cols" using a set_t by simp
  qed
qed

subsection \<open>The instance\<close>

lemma demo_sample_ok: "sample_ok demo_pandas"
  unfolding sample_ok_def demo_pandas_def
proof (intro allI impI, simp, intro conjI)
  fix rows :: "nat list" and k :: nat
  assume a: "distinct rows \<and> Suc 0 \<le> k"
  show "set (take (length rows div k) rows) \<subseteq> set rows" by (rule set_take_subset)
  have "length rows \<le> length rows + k - 1" using a by linarith
  then have "length rows div k \<le> (length rows + k - 1) div k" by (rule div_le_mono)
  then show "length rows div k \<le> (length rows + k - Suc 0) div k" by simp
qed

lemma demo_no_group: "columns demo_frame ''group'' = None"
  by (simp add: demo_frame_def)

lemma demo_transformed:
  "add_stratify_cols demo_pandas 10 demo_frame [''city''] = (demo_frame_stratified, Inr [''city_stratify''])"
  by (simp add: stratify_col_def demo_frame_def demo_pandas_def demo_frame_stratified_def
      is_numeric_kind_def)

lemma demo_keys:
  "row_keys demo_frame_stratified [''city_stratify'']
     = [[Str ''a''], [Str ''a''], [Str ''b''], [Str ''b'']]"
  by (simp add: row_keys_def demo_frame_stratified_def demo_frame_def set_col_def upt_rec)

lemma demo_value_counts:
  "value_counts demo_pandas demo_frame_stratified [''city_stratify'']
     = Inr [([Str ''a''], 2), ([Str ''b''], 2)]"
  unfolding value_counts_def demo_keys Let_def
  by (simp add: demo_pandas_def)

lemma demo_bucket_ok:
  "bucket_ok [([Str ''a''], 2), ([Str ''b''], 2 :: nat)] n \<longleftrightarrow> n \<le> 2"
  by (simp add: bucket_ok_def)

lemma demo_groups:
  "assign_groups demo_pandas [[Str ''a''], [Str ''a''], [Str ''b''], [Str ''b'']] 2
     (replicate 4 PyNone) = [PyInt 0, PyInt 1, PyInt 0, PyInt 1]"
  by code_simp

lemma demo_nrows: "nrows demo_frame_stratified = 4" "nrows demo_frame = 4"
  by (simp_all add: demo_frame_stratified_def set_col_def demo_frame_def)

lemma demo_returns:
  "proportional_stratified_sample demo_pandas demo_frame [''city''] 2 10
     = (demo_frame_stratified, Inr demo_result)"
proof -
  have g: "PyNone \<notin> set [PyInt 0, PyInt 1, PyInt 0, PyInt 1 :: nat cell]" by simp
  have ng: "''group'' \<notin> dom (columns demo_frame)" using demo_no_group by (simp add: dom_def)
  show ?thesis
    unfolding proportional_stratified_sample_def if_not_P[OF ng] demo_transformed prod.case
      sum.case demo_value_counts demo_bucket_ok Let_def demo_keys demo_nrows demo_groups
    using g by (simp add: demo_result_def)
qed

theorem proportional_stratified_sample_partition_witness:
  "\<exists>out g.
     proportional_stratified_sample demo_pandas demo_frame [''city''] 2 10
       = (demo_frame_stratified, Inr out)
   \<and> nrows out = 4
   \<and> columns out ''group'' = Some \<lparr>kind = CHR ''O'', cells = g\<rparr>
   \<and> length g = 4
   \<and> (\<exists>j < 2. g ! 3 = PyInt (int j))
   \<and> card (stratum_rows (row_keys demo_frame_stratified [''city_stratify'']) g [Str ''a'']
              (PyInt 1)) = 1"
proof -
  have ng: "''group'' \<notin> dom (columns demo_frame)" using demo_no_group by (simp add: dom_def)
  have bk: "bucket_ok [([Str ''a''], 2), ([Str ''b''], 2 :: nat)] 2" by (simp add: demo_bucket_ok)
  note t = proportional_stratified_sample_partition[OF demo_sample_ok ng demo_transformed
      demo_value_counts bk, THEN conjunct1, rule_format]
  have "(1::int) \<le> 2" by simp
  from t[OF this] obtain out g where
    r: "proportional_stratified_sample demo_pandas demo_frame [''city''] 2 10
          = (demo_frame_stratified, Inr out)"
    and n: "nrows out = nrows demo_frame"
    and c: "columns out ''group'' = Some \<lparr>kind = CHR ''O'', cells = g\<rparr>"
    and l: "length g = nrows demo_frame"
    and lab: "\<forall>r < nrows demo_frame. \<exists>j < nat 2. g ! r = PyInt (int j)"
    and bal: "\<forall>(key, c) \<in> set [([Str ''a''], 2), ([Str ''b''], 2 :: nat)]. \<forall>j < nat 2.
                  c div nat 2
                    \<le> card (stratum_rows (row_keys demo_frame_stratified [''city_stratify'']) g key (PyInt (int j)))
                \<and> card (stratum_rows (row_keys demo_frame_stratified [''city_stratify'']) g key (PyInt (int j)))
                    \<le> (c + nat 2 - 1) div nat 2
                \<and> 1 \<le> card (stratum_rows (row_keys demo_frame_stratified [''city_stratify'']) g key (PyInt (int j)))"
    by blast
  have "(3::nat) < nrows demo_frame" by (simp add: demo_nrows)
  with lab have "\<exists>j < nat 2. g ! 3 = PyInt (int j)" by blast
  then have l3: "\<exists>j < 2. g ! 3 = PyInt (int j)" by simp
  have "([Str ''a''], 2 :: nat) \<in> set [([Str ''a''], 2), ([Str ''b''], 2 :: nat)]" by simp
  with bal have "\<forall>j < nat 2.
                  2 div nat 2
                    \<le> card (stratum_rows (row_keys demo_frame_stratified [''city_stratify'']) g [Str ''a''] (PyInt (int j)))
                \<and> card (stratum_rows (row_keys demo_frame_stratified [''city_stratify'']) g [Str ''a''] (PyInt (int j)))
                    \<le> (2 + nat 2 - 1) div nat 2"
    by blast
  moreover have "(1::nat) < nat 2" by simp
  ultimately have "2 div nat 2
                    \<le> card (stratum_rows (row_keys demo_frame_stratified [''city_stratify'']) g [Str ''a''] (PyInt (int 1)))
                \<and> card (stratum_rows (row_keys demo_frame_stratified [''city_stratify'']) g [Str ''a''] (PyInt (int 1)))
                    \<le> (2 + nat 2 - 1) div nat 2"
    by blast
  then have k: "card (stratum_rows (row_keys demo_frame_stratified [''city_stratify'']) g [Str ''a''] (PyInt 1)) = 1"
    by simp
  show ?thesis using r n c l l3 k by (auto simp: demo_nrows)
qed

text \<open>
  Claim C2 as stated fails for a number of groups below one: the call on the instance with
  \<open>n_splits = 0\<close> passes the two assertions on its input (there is no \<^verbatim>\<open>group\<close> column, and
  every stratum has at least zero rows), runs the second loop zero times and then fails
  its last assertion, since no row has a group.
\<close>

theorem proportional_stratified_sample_no_groups_counterexample:
  "columns demo_frame ''group'' = None
   \<and> add_stratify_cols demo_pandas 10 demo_frame [''city'']
       = (demo_frame_stratified, Inr [''city_stratify''])
   \<and> value_counts demo_pandas demo_frame_stratified [''city_stratify'']
       = Inr [([Str ''a''], 2), ([Str ''b''], 2)]
   \<and> bucket_ok [([Str ''a''], 2), ([Str ''b''], 2 :: nat) :: nat cell list \<times> nat] 0
   \<and> proportional_stratified_sample demo_pandas demo_frame [''city''] 0 10
       = (demo_frame_stratified, Inl AssertionError)"
proof (intro conjI)
  show "columns demo_frame ''group'' = None" by (rule demo_no_group)
  show "add_stratify_cols demo_pandas 10 demo_frame [''city'']
       = (demo_frame_stratified, Inr [''city_stratify''])" by (rule demo_transformed)
  show "value_counts demo_pandas demo_frame_stratified [''city_stratify'']
       = Inr [([Str ''a''], 2), ([Str ''b''], 2)]" by (rule demo_value_counts)
  show "bucket_ok [([Str ''a''], 2), ([Str ''b''], 2 :: nat) :: nat cell list \<times> nat] 0"
    by (simp add: demo_bucket_ok)
  have ng: "''group'' \<notin> dom (columns demo_frame)" using demo_no_group by (simp add: dom_def)
  have a: "assign_groups demo_pandas ks 0 g = g" for ks and g :: "nat cell list"
    by (simp add: assign_groups_def)
  show "proportional_stratified_sample demo_pandas demo_frame [''city''] 0 10
       = (demo_frame_stratified, Inl AssertionError)"
    unfolding proportional_stratified_sample_def if_not_P[OF ng] demo_transformed prod.case
      sum.case demo_value_counts demo_bucket_ok Let_def demo_keys demo_nrows a
    by simp
qed

theorem small_stratum_raises_witness:
  "proportional_stratified_sample demo_pandas demo_frame [''city''] 3 10
     = (demo_frame_stratified, Inl AssertionError)
   \<and> columns demo_frame_stratified ''group'' = None
   \<and> proportional_stratified_sample (demo_pandas\<lparr>sample := (\<lambda>i key rows k. rows)\<rparr>) demo_frame
       [''city''] 3 10
     = (demo_frame_stratified, Inl AssertionError)"
proof -
  have small: "\<exists>key \<in> set (row_keys demo_frame_stratified [''city_stratify'']).
                 int (count_list (row_keys demo_frame_stratified [''city_stratify'']) key) < 3"
    unfolding demo_keys by simp
  note t = small_stratum_raises[OF demo_transformed small]
  have ng: "''group'' \<notin> dom (columns demo_frame)" using demo_no_group by (simp add: dom_def)
  have ge: "group_keys_error demo_pandas [''city_stratify''] (nrows demo_frame_stratified) = None"
    by (simp add: demo_pandas_def)
  have r: "proportional_stratified_sample demo_pandas demo_frame [''city''] 3 10
     = (demo_frame_stratified, Inl AssertionError)"
    using t[THEN conjunct1] unfolding if_not_P[OF ng] ge option.case .
  have c: "columns demo_frame_stratified ''group'' = None"
    using t[THEN conjunct2, THEN conjunct1] demo_no_group by simp
  have "proportional_stratified_sample (demo_pandas\<lparr>sample := (\<lambda>i key rows k. rows)\<rparr>) demo_frame
       [''city''] 3 10
     = proportional_stratified_sample demo_pandas demo_frame [''city''] 3 10"
    by (rule t[THEN conjunct2, THEN conjunct2, THEN spec])
  with r c show ?thesis by simp
qed

text \<open>
  Claim C6 as stated fails when the list of stratify columns is one that pandas refuses as
  group keys. On the instance with the column \<^verbatim>\<open>city\<close> given twice and \<open>n_splits = 3\<close>, each
  combination of values of the transformed columns has two rows, fewer than \<open>n_splits\<close>,
  but \<^verbatim>\<open>value_counts\<close> raises before the assertion is evaluated and the call ends in
  \<^verbatim>\<open>ValueError\<close>.
\<close>

theorem small_stratum_value_error_counterexample:
  "add_stratify_cols demo_pandas 10 demo_frame [''city'', ''city'']
     = (demo_frame_stratified, Inr [''city_stratify'', ''city_stratify''])
   \<and> row_keys demo_frame_stratified [''city_stratify'', ''city_stratify'']
       = [[Str ''a'', Str ''a''], [Str ''a'', Str ''a''], [Str ''b'', Str ''b''],
          [Str ''b'', Str ''b'']]
   \<and> proportional_stratified_sample demo_pandas demo_frame [''city'', ''city''] 3 10
       = (demo_frame_stratified, Inl ValueError)"
proof (intro conjI)
  show a: "add_stratify_cols demo_pandas 10 demo_frame [''city'', ''city'']
     = (demo_frame_stratified, Inr [''city_stratify'', ''city_stratify''])"
    by (simp add: stratify_col_def demo_frame_def demo_pandas_def demo_frame_stratified_def
        is_numeric_kind_def set_col_def)
  show "row_keys demo_frame_stratified [''city_stratify'', ''city_stratify'']
       = [[Str ''a'', Str ''a''], [Str ''a'', Str ''a''], [Str ''b'', Str ''b''],
          [Str ''b'', Str ''b'']]"
    by (simp add: row_keys_def demo_frame_stratified_def demo_frame_def set_col_def upt_rec)
  have ng: "''group'' \<notin> dom (columns demo_frame)" using demo_no_group by (simp add: dom_def)
  have v: "value_counts demo_pandas demo_frame_stratified [''city_stratify'', ''city_stratify'']
           = Inl ValueError"
    by (simp add: value_counts_def demo_pandas_def)
  show "proportional_stratified_sample demo_pandas demo_frame [''city'', ''city''] 3 10
       = (demo_frame_stratified, Inl ValueError)"
    unfolding proportional_stratified_sample_def if_not_P[OF ng] a prod.case sum.case v ..
qed

theorem caller_dataframe_keeps_stratify_columns_witness:
  "proportional_stratified_sample demo_pandas demo_frame [''city''] 2 10
     = (demo_frame_stratified, Inr demo_result)
   \<and> ''city_stratify'' \<in> dom (columns demo_frame_stratified)
   \<and> columns demo_frame_stratified ''city'' = columns demo_frame ''city''
   \<and> columns demo_frame_stratified ''group'' = None
   \<and> ''group'' \<in> dom (columns demo_result)
   \<and> columns demo_result ''city_stratify'' = None
   \<and> columns demo_result ''city'' = columns demo_frame ''city''"
proof -
  note t = caller_dataframe_keeps_stratify_columns[OF demo_returns]
  note t1 = t[THEN conjunct1]
  note t2 = t[THEN conjunct2, THEN conjunct1]
  note t4 = t[THEN conjunct2, THEN conjunct2, THEN conjunct2, THEN conjunct1]
  note t5 = t[THEN conjunct2, THEN conjunct2, THEN conjunct2, THEN conjunct2, THEN conjunct1]
  note t6 = t[THEN conjunct2, THEN conjunct2, THEN conjunct2, THEN conjunct2, THEN conjunct2,
        THEN conjunct1]
  note t7 = t[THEN conjunct2, THEN conjunct2, THEN conjunct2, THEN conjunct2, THEN conjunct2,
        THEN conjunct2, THEN conjunct1]
  have m: "''city'' \<in> set [''city'']" by simp
  have app: "''city'' @ ''_stratify'' = ''city_stratify''" by simp
  have nm: "''city'' \<notin> (\<lambda>c. c @ ''_stratify'') ` set [''city'']" by simp
  have ng: "''city'' \<noteq> ''group''" by simp
  have a: "''city_stratify'' \<in> dom (columns demo_frame_stratified)"
    using bspec[OF t1 m] unfolding app .
  have b: "columns demo_frame_stratified ''city'' = columns demo_frame ''city''"
    by (rule t2[THEN spec, THEN mp, OF nm])
  have c: "columns demo_frame_stratified ''group'' = None"
    using t4 by (simp only: domIff not_not)
  have e: "columns demo_result ''city_stratify'' = None"
    using bspec[OF t6 m] unfolding app by (simp only: domIff not_not)
  have f: "columns demo_result ''city'' = columns demo_frame ''city''"
    by (rule t7[THEN spec, THEN mp, OF conjI[OF ng nm]])
  show ?thesis
    by (intro conjI) (rule demo_returns a b c t5 e f)+
qed

end
